theory Spec2Isabelle
  imports Main "HOL-Library.Char_ord" "HOL-Library.List_Lexorder" "HOL-Library.Sublist"
    "HOL-Library.AList"
begin

section \<open>JavaScript strings\<close>

text \<open>
  A JavaScript string is modelled as a \<^typ>\<open>string\<close> whose characters stand for the code
  units \<open>0x00\<close> to \<open>0xFF\<close> (the Latin-1 range). All string primitives below are written
  for that range.
\<close>

definition isUpperCase :: "char \<Rightarrow> bool" where
  \<comment> \<open>the code units that \<open>String.prototype.toLowerCase\<close> changes: A-Z, and the
      Latin-1 capitals \<open>0xC0\<close>-\<open>0xDE\<close> except the multiplication sign \<open>0xD7\<close>\<close>
  "isUpperCase c =
     ((CHR ''A'' \<le> c \<and> c \<le> CHR ''Z'') \<or> (CHR 0xC0 \<le> c \<and> c \<le> CHR 0xDE \<and> c \<noteq> CHR 0xD7))"

definition toLowerCase_char :: "char \<Rightarrow> char" where
  \<comment> \<open>lower case is the capital's code plus \<open>0x20\<close>, that is, bit 5 set\<close>
  "toLowerCase_char c =
     (if isUpperCase c
      then (case c of Char b0 b1 b2 b3 b4 b5 b6 b7 \<Rightarrow> Char b0 b1 b2 b3 b4 True b6 b7)
      else c)"

definition toLowerCase :: "string \<Rightarrow> string" where
  "toLowerCase s = map toLowerCase_char s"

definition isWhiteSpace :: "char \<Rightarrow> bool" where
  \<comment> \<open>what \<open>String.prototype.trim\<close> strips: TAB, LF, VT, FF, CR, SP and NBSP\<close>
  "isWhiteSpace c = (c \<in> {CHR 0x09, CHR 0x0A, CHR 0x0B, CHR 0x0C, CHR 0x0D, CHR 0x20, CHR 0xA0})"

definition trim :: "string \<Rightarrow> string" where
  "trim s = rev (dropWhile isWhiteSpace (rev (dropWhile isWhiteSpace s)))"

definition startsWith :: "string \<Rightarrow> string \<Rightarrow> bool" where
  "startsWith s p = (take (length p) s = p)"

fun includes_str :: "string \<Rightarrow> string \<Rightarrow> bool" where
  "includes_str [] sub = (sub = [])"
| "includes_str (c # cs) sub = (startsWith (c # cs) sub \<or> includes_str cs sub)"

definition join :: "string \<Rightarrow> string list \<Rightarrow> string" where
  \<comment> \<open>\<open>Array.prototype.join\<close> on an array of strings\<close>
  "join sep xs = (case xs of [] \<Rightarrow> [] | y # ys \<Rightarrow> y @ concat (map (\<lambda>z. sep @ z) ys))"

section \<open>JavaScript values and JSON serialization\<close>

text \<open>
  The request body has type \<open>any\<close>. The model covers \<open>undefined\<close>, \<open>null\<close>, booleans,
  integral numbers (those that print without an exponent), BigInts, strings, arrays and
  plain objects (as property lists in property order).
\<close>

datatype jsval =
    JUndefined
  | JNull
  | JBoolean bool
  | JNumber int
  | JBigInt int
  | JString string
  | JArray "jsval list"
  | JObject "(string \<times> jsval) list"

datatype error = Error string | TypeError string | SyntaxError string

fun truthy :: "jsval \<Rightarrow> bool" where
  \<comment> \<open>\<open>!!v\<close>\<close>
  "truthy JUndefined = False"
| "truthy JNull = False"
| "truthy (JBoolean b) = b"
| "truthy (JNumber n) = (n \<noteq> 0)"
| "truthy (JBigInt n) = (n \<noteq> 0)"
| "truthy (JString s) = (s \<noteq> [])"
| "truthy (JArray xs) = True"
| "truthy (JObject ps) = True"

definition digit_char :: "nat \<Rightarrow> char" where
  "digit_char d = ''0123456789'' ! d"

fun digits :: "nat \<Rightarrow> string" where
  "digits n = (if n < 10 then [digit_char n] else digits (n div 10) @ [digit_char (n mod 10)])"

declare digits.simps [simp del]

definition Number_toString :: "int \<Rightarrow> string" where
  "Number_toString n = (if n < 0 then ''-'' @ digits (nat (- n)) else digits (nat n))"

definition hex_char :: "nat \<Rightarrow> char" where
  "hex_char d = ''0123456789abcdef'' ! d"

definition QuoteJSONChar :: "char \<Rightarrow> string" where
  "QuoteJSONChar c =
     (if c = CHR 0x22 then [CHR 0x5C, CHR 0x22]
      else if c = CHR 0x5C then [CHR 0x5C, CHR 0x5C]
      else if c = CHR 0x08 then [CHR 0x5C, CHR ''b'']
      else if c = CHR 0x09 then [CHR 0x5C, CHR ''t'']
      else if c = CHR 0x0A then [CHR 0x5C, CHR ''n'']
      else if c = CHR 0x0C then [CHR 0x5C, CHR ''f'']
      else if c = CHR 0x0D then [CHR 0x5C, CHR ''r'']
      else if c < CHR 0x20
      then [CHR 0x5C, CHR ''u'', CHR ''0'', CHR ''0'',
            hex_char (of_char c div 16), hex_char (of_char c mod 16)]
      else [c])"

definition QuoteJSONString :: "string \<Rightarrow> string" where
  "QuoteJSONString s = [CHR 0x22] @ concat (map QuoteJSONChar s) @ [CHR 0x22]"

fun SerializeJSONProperty :: "jsval \<Rightarrow> error + string option"
  and SerializeJSONArray :: "jsval list \<Rightarrow> error + string list"
  and SerializeJSONObject :: "(string \<times> jsval) list \<Rightarrow> error + string list"
where
  "SerializeJSONProperty JUndefined = Inr None"
| "SerializeJSONProperty JNull = Inr (Some ''null'')"
| "SerializeJSONProperty (JBoolean b) = Inr (Some (if b then ''true'' else ''false''))"
| "SerializeJSONProperty (JNumber n) = Inr (Some (Number_toString n))"
| "SerializeJSONProperty (JBigInt n) = Inl (TypeError ''Do not know how to serialize a BigInt'')"
| "SerializeJSONProperty (JString s) = Inr (Some (QuoteJSONString s))"
| "SerializeJSONProperty (JArray xs) =
     (case SerializeJSONArray xs of
        Inl e \<Rightarrow> Inl e
      | Inr parts \<Rightarrow> Inr (Some (''['' @ join '','' parts @ '']'')))"
| "SerializeJSONProperty (JObject ps) =
     (case SerializeJSONObject ps of
        Inl e \<Rightarrow> Inl e
      | Inr parts \<Rightarrow> Inr (Some (''{'' @ join '','' parts @ ''}'')))"
| "SerializeJSONArray [] = Inr []"
| "SerializeJSONArray (x # xs) =
     (case SerializeJSONProperty x of
        Inl e \<Rightarrow> Inl e
      | Inr so \<Rightarrow>
          (case SerializeJSONArray xs of
             Inl e \<Rightarrow> Inl e
           | Inr rest \<Rightarrow> Inr ((case so of None \<Rightarrow> ''null'' | Some s \<Rightarrow> s) # rest)))"
| "SerializeJSONObject [] = Inr []"
| "SerializeJSONObject (kv # ps) =
     (case SerializeJSONProperty (snd kv) of
        Inl e \<Rightarrow> Inl e
      | Inr so \<Rightarrow>
          (case SerializeJSONObject ps of
             Inl e \<Rightarrow> Inl e
           | Inr rest \<Rightarrow>
               Inr (case so of
                      None \<Rightarrow> rest
                    | Some s \<Rightarrow> (QuoteJSONString (fst kv) @ '':'' @ s) # rest)))"

definition JSON_stringify :: "jsval \<Rightarrow> error + jsval" where
  \<comment> \<open>\<open>JSON.stringify(value)\<close>: a string, \<open>undefined\<close> for \<open>undefined\<close>, or a thrown
      \<open>TypeError\<close>\<close>
  "JSON_stringify v =
     (case SerializeJSONProperty v of
        Inl e \<Rightarrow> Inl e
      | Inr None \<Rightarrow> Inr JUndefined
      | Inr (Some s) \<Rightarrow> Inr (JString s))"

section \<open>Plain objects\<close>

text \<open>
  A plain object is its list of own enumerable properties in property order, each key
  once. Writing a property that exists keeps its place; a new one goes to the end. (Keys
  that are array indices, which JavaScript lists first, are not told apart; nothing below
  depends on the order of the properties.)
\<close>

type_synonym 'v JsObject = "(string \<times> 'v) list"

definition assign :: "'v JsObject \<Rightarrow> (string \<times> 'v) list \<Rightarrow> 'v JsObject" where
  \<comment> \<open>write the pairs, in order, into the object\<close>
  "assign obj kvs = foldl (\<lambda>acc kv. AList.update (fst kv) (snd kv) acc) obj kvs"

definition Object_fromEntries :: "(string \<times> 'v) list \<Rightarrow> 'v JsObject" where
  "Object_fromEntries kvs = assign [] kvs"

definition Object_entries :: "'v JsObject \<Rightarrow> (string \<times> 'v) list" where
  "Object_entries obj = obj"

definition spread :: "'v JsObject \<Rightarrow> 'v JsObject \<Rightarrow> 'v JsObject" where
  \<comment> \<open>\<open>{ ...a, ...b }\<close>\<close>
  "spread a b = assign (assign [] (Object_entries a)) (Object_entries b)"

section \<open>The Headers class\<close>

text \<open>
  \<open>Headers\<close> is imported from \<open>cross-fetch\<close>, which on Node re-exports the class of
  \<open>node-fetch\<close>: a map from the name as first appended to the list of values appended
  under that name (names compared case-insensitively). Appending checks the name against
  the HTTP token grammar and the value against the legal header characters, and throws a
  \<open>TypeError\<close> otherwise.
\<close>

datatype Headers = Headers (MAP: "(string \<times> string list) list")

definition isTokenChar :: "char \<Rightarrow> bool" where
  \<comment> \<open>the complement of \<open>/[^\^_`a-zA-Z\-0-9!#$%&'*+.|~]/\<close>\<close>
  "isTokenChar c =
     ((CHR ''a'' \<le> c \<and> c \<le> CHR ''z'') \<or> (CHR ''A'' \<le> c \<and> c \<le> CHR ''Z'') \<or>
      (CHR ''0'' \<le> c \<and> c \<le> CHR ''9'') \<or>
      c \<in> {CHR 0x5E, CHR 0x5F, CHR 0x60, CHR 0x2D, CHR 0x21, CHR 0x23, CHR 0x24, CHR 0x25,
           CHR 0x26, CHR 0x27, CHR 0x2A, CHR 0x2B, CHR 0x2E, CHR 0x7C, CHR 0x7E})"

definition isHeaderChar :: "char \<Rightarrow> bool" where
  \<comment> \<open>the complement of \<open>/[^\t\x20-\x7e\x80-\xff]/\<close>\<close>
  "isHeaderChar c = (c = CHR 0x09 \<or> (CHR 0x20 \<le> c \<and> c \<le> CHR 0x7E) \<or> CHR 0x80 \<le> c)"

definition validateName :: "string \<Rightarrow> error option" where
  "validateName name =
     (if \<not> list_all isTokenChar name \<or> name = []
      then Some (TypeError (name @ '' is not a legal HTTP header name''))
      else None)"

definition validateValue :: "string \<Rightarrow> error option" where
  "validateValue v =
     (if \<not> list_all isHeaderChar v
      then Some (TypeError (v @ '' is not a legal HTTP header value''))
      else None)"

fun find_key :: "(string \<times> string list) list \<Rightarrow> string \<Rightarrow> string option" where
  \<comment> \<open>the stored key that equals the name up to case\<close>
  "find_key [] name = None"
| "find_key ((key, vs) # m) name =
     (if toLowerCase key = toLowerCase name then Some key else find_key m name)"

definition Headers_append :: "Headers \<Rightarrow> string \<Rightarrow> string \<Rightarrow> error + Headers" where
  "Headers_append h name v =
     (case validateName name of
        Some e \<Rightarrow> Inl e
      | None \<Rightarrow>
          (case validateValue v of
             Some e \<Rightarrow> Inl e
           | None \<Rightarrow>
               (case find_key (MAP h) name of
                  Some key \<Rightarrow>
                    Inr (Headers (map (\<lambda>kv. if fst kv = key then (fst kv, snd kv @ [v]) else kv)
                                      (MAP h)))
                | None \<Rightarrow> Inr (Headers (MAP h @ [(name, [v])])))))"

fun Headers_appendAll :: "Headers \<Rightarrow> (string \<times> string) list \<Rightarrow> error + Headers" where
  \<comment> \<open>the constructor's loop over the keys of its initializer\<close>
  "Headers_appendAll h [] = Inr h"
| "Headers_appendAll h (kv # kvs) =
     (case Headers_append h (fst kv) (snd kv) of
        Inl e \<Rightarrow> Inl e
      | Inr h' \<Rightarrow> Headers_appendAll h' kvs)"

definition Headers_new :: "string JsObject \<Rightarrow> error + Headers" where
  \<comment> \<open>\<open>new Headers(init)\<close> for a plain object\<close>
  "Headers_new init = Headers_appendAll (Headers []) (Object_entries init)"

definition Headers_get :: "Headers \<Rightarrow> string \<Rightarrow> string option" where
  \<comment> \<open>\<open>null\<close> is \<open>None\<close>. The name check of \<open>get\<close> is left out: the client only asks
      for the literal \<open>content-type\<close>.\<close>
  "Headers_get h name =
     (case find_key (MAP h) name of
        None \<Rightarrow> None
      | Some key \<Rightarrow> (case map_of (MAP h) key of None \<Rightarrow> None | Some vs \<Rightarrow> Some (join '', '' vs)))"

definition Headers_entries :: "Headers \<Rightarrow> (string \<times> string) list" where
  \<comment> \<open>keys sorted, then lowercased; the values of a key joined\<close>
  "Headers_entries h = map (\<lambda>kv. (toLowerCase (fst kv), join '', '' (snd kv))) (sort_key fst (MAP h))"

text \<open>
  What the type \<open>HeadersInit\<close> admits: an instance of the imported class, an array of
  name/value pairs, a plain object, and also a \<open>Headers\<close> object of the platform's own
  class (the global one), which is not the class imported from \<open>cross-fetch\<close>. Such an
  object keeps the headers it holds in internal slots and has no own enumerable property.
\<close>

datatype HeadersInit =
    HeadersInstance Headers
  | PlatformHeaders "(string \<times> string) list"
  | HeadersArray "(string \<times> string) list"
  | HeadersRecord "string JsObject"

definition getNormalizedHeaders :: "HeadersInit option \<Rightarrow> string JsObject" where
  "getNormalizedHeaders headers =
     (case headers of
        None \<Rightarrow> []
      | Some (HeadersInstance h) \<Rightarrow> Object_fromEntries (Headers_entries h)
      | Some (PlatformHeaders held) \<Rightarrow>
          \<comment> \<open>neither \<open>instanceof Headers\<close> nor an array: read as a plain object, and
              \<open>Object.entries\<close> of it is empty\<close>
          Object_fromEntries
            (map (\<lambda>(headerName, headerValue). (toLowerCase headerName, headerValue))
                 (Object_entries ([] :: string JsObject)))
      | Some (HeadersArray pairs) \<Rightarrow>
          Object_fromEntries (map (\<lambda>(headerName, headerValue). (toLowerCase headerName, headerValue)) pairs)
      | Some (HeadersRecord obj) \<Rightarrow>
          Object_fromEntries
            (map (\<lambda>(headerName, headerValue). (toLowerCase headerName, headerValue))
                 (Object_entries obj)))"

section \<open>Client configuration and construction\<close>

datatype HttpProtocol = Http | Https

fun HttpProtocol_value :: "HttpProtocol \<Rightarrow> string" where
  "HttpProtocol_value Http = ''http''"
| "HttpProtocol_value Https = ''https''"

text \<open>
  Request options (\<open>RequestInit\<close>): the headers, and every other field as a plain object.
  \<open>method\<close> and \<open>body\<close> are not among the other fields: the client always writes them
  itself, after the spreads.
\<close>

record RequestOptions =
  headers :: "HeadersInit option"
  other :: "jsval JsObject"

record FetchHttpClientOptions =
  cfg_protocol :: "HttpProtocol option"
  cfg_host :: "string option"
  cfg_path :: "string option"
  cfg_defaultRequestOptions :: "RequestOptions option"
  cfg_rateLimitMs :: "int option"

record FetchHttpClient =
  protocol :: HttpProtocol
  host :: string
  path :: string
  defaultRequestOptions :: RequestOptions
  rateLimitMs :: int

definition constructor :: "FetchHttpClientOptions \<Rightarrow> error + FetchHttpClient" where
  "constructor options =
     (let path = cfg_path options in
      if (case path of Some p \<Rightarrow> p \<noteq> [] \<and> \<not> startsWith p ''/'' | None \<Rightarrow> False)
      then Inl (Error (''Could not create FetchHttpClient. Provided path '' @ [CHR 0x22] @
                       (case path of Some p \<Rightarrow> p | None \<Rightarrow> []) @ [CHR 0x22] @
                       '' does not start with a '' @ [CHR 0x22] @ ''/'' @ [CHR 0x22] @ ''.''))
      else Inr \<lparr>protocol = (case cfg_protocol options of Some x \<Rightarrow> x | None \<Rightarrow> Http),
                host = (case cfg_host options of Some h \<Rightarrow> h | None \<Rightarrow> []),
                path = (case path of Some p \<Rightarrow> p | None \<Rightarrow> []),
                defaultRequestOptions =
                  (case cfg_defaultRequestOptions options of
                     Some d \<Rightarrow> d
                   | None \<Rightarrow> \<lparr>headers = None, other = []\<rparr>),
                rateLimitMs = (case cfg_rateLimitMs options of Some n \<Rightarrow> n | None \<Rightarrow> 0)\<rparr>)"

section \<open>URI composition\<close>

text \<open>
  \<^verbatim>\<open>URI_REGEX = /^(?<uri>(?:(?<protocol>[a-z]+):\/\/)?(?<host>[a-z\d.]+)?(?<path>\/.*)?)$/i\<close>

  The three named groups are optional; a group that does not take part in the match is
  \<open>undefined\<close> (\<open>None\<close>), and one that takes part is never empty. The flag \<open>i\<close> makes the
  letter classes match both cases; without the flag \<open>s\<close> the dot does not match a line
  terminator.
\<close>

record UriGroups =
  protocol_group :: "string option"
  host_group :: "string option"
  path_group :: "string option"

definition isLetter :: "char \<Rightarrow> bool" where
  \<comment> \<open>\<open>[a-z]\<close> under the flag \<open>i\<close>\<close>
  "isLetter c = ((CHR ''a'' \<le> c \<and> c \<le> CHR ''z'') \<or> (CHR ''A'' \<le> c \<and> c \<le> CHR ''Z''))"

definition isHostChar :: "char \<Rightarrow> bool" where
  \<comment> \<open>\<open>[a-z\d.]\<close> under the flag \<open>i\<close>\<close>
  "isHostChar c = (isLetter c \<or> (CHR ''0'' \<le> c \<and> c \<le> CHR ''9'') \<or> c = CHR ''.'')"

definition isLineTerminator :: "char \<Rightarrow> bool" where
  "isLineTerminator c = (c = CHR 0x0A \<or> c = CHR 0x0D)"

definition match_host_path :: "string option \<Rightarrow> string \<Rightarrow> UriGroups option" where
  \<comment> \<open>\<open>(?<host>[a-z\d.]+)?(?<path>\/.*)?$\<close> on what follows the scheme. The host class is
      greedy; giving characters back never helps, since the next character would then be a
      host character, which is neither \<open>/\<close> nor the end of the input.\<close>
  "match_host_path p s =
     (let h = takeWhile isHostChar s;
          r = dropWhile isHostChar s;
          hg = (if h = [] then None else Some h)
      in if r = [] then Some \<lparr>protocol_group = p, host_group = hg, path_group = None\<rparr>
         else if hd r = CHR ''/'' \<and> list_all (\<lambda>c. \<not> isLineTerminator c) (tl r)
         then Some \<lparr>protocol_group = p, host_group = hg, path_group = Some r\<rparr>
         else None)"

definition URI_REGEX_exec :: "string \<Rightarrow> UriGroups option" where
  \<comment> \<open>first with the scheme group taking part, then (backtracking) without it\<close>
  "URI_REGEX_exec s =
     (let l = takeWhile isLetter s;
          r = dropWhile isLetter s;
          withScheme =
            (if l \<noteq> [] \<and> startsWith r ''://'' then match_host_path (Some l) (drop 3 r) else None)
      in case withScheme of
           Some g \<Rightarrow> Some g
         | None \<Rightarrow> match_host_path None s)"

definition getTreatedUri :: "FetchHttpClient \<Rightarrow> string \<Rightarrow> string" where
  "getTreatedUri this uri =
     (let trimmedUri = trim uri in
      case URI_REGEX_exec trimmedUri of
        None \<Rightarrow> []
      | Some g \<Rightarrow>
          let isRelative = (protocol_group g = None \<and> host_group g = None);
              capturedPath = (case path_group g of Some p \<Rightarrow> p | None \<Rightarrow> [])
          in if isRelative
             then (if host this \<noteq> []
                   then HttpProtocol_value (protocol this) @ ''://'' @ host this else [])
                  @ path this @ capturedPath
             else (case protocol_group g of Some p \<Rightarrow> p
                   | None \<Rightarrow> HttpProtocol_value (protocol this))
                  @ ''://''
                  @ (case host_group g of Some h \<Rightarrow> h | None \<Rightarrow> host this)
                  @ path this @ capturedPath)"

section \<open>Requests and responses\<close>

record RequestInit =
  init_other :: "jsval JsObject"
  init_method :: string
  init_headers :: "string JsObject"
  init_body :: jsval

text \<open>
  A response of the transport: its header collection, its raw body, and the two parsing
  methods. A method reads its receiver (\<open>this\<close>); the receiver is \<open>None\<close> when the
  method is called detached from its response.
\<close>

record ResponseFields =
  resp_headers :: Headers
  resp_body :: jsval

record Response = ResponseFields +
  resp_json :: "ResponseFields option \<Rightarrow> error + jsval"
  resp_text :: "ResponseFields option \<Rightarrow> error + jsval"

definition receiver :: "Response \<Rightarrow> ResponseFields" where
  "receiver r = \<lparr>resp_headers = resp_headers r, resp_body = resp_body r\<rparr>"

definition bind :: "(ResponseFields option \<Rightarrow> error + jsval) \<Rightarrow> Response \<Rightarrow> (unit \<Rightarrow> error + jsval)" where
  \<comment> \<open>\<open>method.bind(response)\<close>\<close>
  "bind method r = (\<lambda>u. method (Some (receiver r)))"

record BasicHttpRequestData =
  body :: jsval
  options :: "RequestOptions option"
  responseBodyParser :: "(jsval \<Rightarrow> error + jsval) option"
  allowThrow :: "bool option"

record BasicHttpResponseData =
  response :: "Response option"
  parsed_body :: jsval

text \<open>
  What a call does that others can observe, in order: firing one of the three notification
  channels, and calling the transport. The subscribers of the channels are not part of the
  client; firing a channel is recorded, and does not throw. The transport is a function of
  the URL and the request options, which throws (rejects) or returns a response.
\<close>

datatype event =
    OnSendRequest string RequestInit
  | Fetch string RequestInit
  | OnReceiveResponse Response
  | OnError error

datatype completion = Resolved BasicHttpResponseData | Rejected error

type_synonym transport = "string \<Rightarrow> RequestInit \<Rightarrow> error + Response"

section \<open>makeRequest\<close>

definition requestHeaders :: "Headers \<Rightarrow> string option \<Rightarrow> string JsObject" where
  \<comment> \<open>the \<open>headers\<close> property of the request options\<close>
  "requestHeaders hdrs contentTypeToUse =
     spread
       (spread [(''accept'', ''*/*'')] (getNormalizedHeaders (Some (HeadersInstance hdrs))))
       (case contentTypeToUse of
          None \<Rightarrow> []
        | Some ct \<Rightarrow>
            if ct \<noteq> []
            then [(''content-type'', ct), (''accept'', ct @ '', */*;q=0.9'')]
            else [])"

definition requestOptions ::
  "FetchHttpClient \<Rightarrow> string \<Rightarrow> BasicHttpRequestData \<Rightarrow> Headers \<Rightarrow> string option \<Rightarrow> jsval \<Rightarrow>
   RequestInit" where
  \<comment> \<open>the request options, given the value computed for their \<open>body\<close>\<close>
  "requestOptions this method requestData hdrs contentTypeToUse b =
     \<lparr>init_other =
        spread (other (defaultRequestOptions this))
               (case options requestData of Some opts \<Rightarrow> other opts | None \<Rightarrow> []),
      init_method = method,
      init_headers = requestHeaders hdrs contentTypeToUse,
      init_body = b\<rparr>"

definition defaultBodyParser :: "Response \<Rightarrow> (unit \<Rightarrow> error + jsval)" where
  "defaultBodyParser resp =
     bind (if (case Headers_get (resp_headers resp) ''content-type'' of
                 Some ct \<Rightarrow> includes_str ct ''application/json''
               | None \<Rightarrow> False)
           then resp_json resp else resp_text resp) resp"

definition tryBlock ::
  "transport \<Rightarrow> FetchHttpClient \<Rightarrow> string \<Rightarrow> string \<Rightarrow> BasicHttpRequestData \<Rightarrow>
   Headers \<Rightarrow> string option \<Rightarrow> bool \<Rightarrow> event list \<times> (error + BasicHttpResponseData)" where
  \<comment> \<open>the body of \<open>try\<close>: the events fired, and the error thrown or the value returned\<close>
  "tryBlock fetch this method uri requestData hdrs contentTypeToUse isJsonRequest =
     (let requestUri = getTreatedUri this uri in
      case (if isJsonRequest then JSON_stringify (body requestData) else Inr (body requestData)) of
        Inl e \<Rightarrow> ([], Inl e)
      | Inr b \<Rightarrow>
          let requestOptions = requestOptions this method requestData hdrs contentTypeToUse b;
              sent = [OnSendRequest requestUri requestOptions,
                      Fetch (getTreatedUri this uri) requestOptions]
          in case fetch (getTreatedUri this uri) requestOptions of
               Inl e \<Rightarrow> (sent, Inl e)
             | Inr resp \<Rightarrow>
                 (case (case responseBodyParser requestData of
                          Some parser \<Rightarrow> parser (resp_body resp)
                        | None \<Rightarrow> defaultBodyParser resp ()) of
                    Inl e \<Rightarrow> (sent @ [OnReceiveResponse resp], Inl e)
                  | Inr parsed \<Rightarrow>
                      (sent @ [OnReceiveResponse resp],
                       Inr \<lparr>response = Some resp, parsed_body = parsed\<rparr>)))"

definition mergedHeaders :: "FetchHttpClient \<Rightarrow> BasicHttpRequestData \<Rightarrow> string JsObject" where
  \<comment> \<open>the argument of \<open>new Headers\<close>\<close>
  "mergedHeaders this requestData =
     spread (getNormalizedHeaders (headers (defaultRequestOptions this)))
            (getNormalizedHeaders
               (case options requestData of Some opts \<Rightarrow> headers opts | None \<Rightarrow> None))"

definition isContentTypePresent :: "string option \<Rightarrow> bool" where
  \<comment> \<open>\<open>!!contentTypeHeader\<close>: neither \<open>null\<close> nor the empty string\<close>
  "isContentTypePresent contentTypeHeader =
     (case contentTypeHeader of Some ct \<Rightarrow> ct \<noteq> [] | None \<Rightarrow> False)"

definition isJsonRequest :: "string option \<Rightarrow> jsval \<Rightarrow> bool" where
  "isJsonRequest contentTypeHeader b =
     ((\<not> isContentTypePresent contentTypeHeader \<or>
       (case contentTypeHeader of
          Some ct \<Rightarrow> toLowerCase ct = ''application/json''
        | None \<Rightarrow> False))
      \<and> truthy b)"

definition contentTypeToUse :: "string option \<Rightarrow> jsval \<Rightarrow> string option" where
  "contentTypeToUse contentTypeHeader b =
     (if \<not> isContentTypePresent contentTypeHeader \<and> isJsonRequest contentTypeHeader b
      then Some ''application/json'' else contentTypeHeader)"

definition makeRequest ::
  "transport \<Rightarrow> FetchHttpClient \<Rightarrow> string \<Rightarrow> string \<Rightarrow> BasicHttpRequestData \<Rightarrow>
   event list \<times> completion" where
  \<comment> \<open>from the destructuring of \<open>requestData\<close> on; the rate-limiting gate before it is
      modelled in its own section. The result is the events fired and how the returned
      promise settles.\<close>
  "makeRequest fetch this method uri requestData =
     (case Headers_new (mergedHeaders this requestData) of
        Inl e \<Rightarrow> ([], Rejected e)
      | Inr hdrs \<Rightarrow>
          let contentTypeHeader = Headers_get hdrs ''content-type'' in
          case tryBlock fetch this method uri requestData hdrs
                 (contentTypeToUse contentTypeHeader (body requestData))
                 (isJsonRequest contentTypeHeader (body requestData)) of
            (trace, Inr result) \<Rightarrow> (trace, Resolved result)
          | (trace, Inl e) \<Rightarrow>
              (trace @ [OnError e],
               if allowThrow requestData = Some True then Rejected e
               else Resolved \<lparr>response = None, parsed_body = JUndefined\<rparr>))"

fun dispatched :: "event list \<Rightarrow> (string \<times> RequestInit) option" where
  \<comment> \<open>what the transport was called with, if it was\<close>
  "dispatched [] = None"
| "dispatched (Fetch url init # es) = Some (url, init)"
| "dispatched (ev # es) = dispatched es"

fun isOnError :: "event \<Rightarrow> bool" where
  "isOnError (OnError e) = True"
| "isOnError ev = False"

section \<open>The request queue\<close>

fun indexOf :: "'a list \<Rightarrow> 'a \<Rightarrow> int" where
  \<comment> \<open>\<open>Array.prototype.indexOf\<close>: \<open>-1\<close> when the element is not there\<close>
  "indexOf [] x = - 1"
| "indexOf (y # ys) x = (if y = x then 0 else (let i = indexOf ys x in if i < 0 then - 1 else i + 1))"

definition slice :: "'a list \<Rightarrow> int \<Rightarrow> int option \<Rightarrow> 'a list" where
  \<comment> \<open>\<open>Array.prototype.slice(start, end)\<close>: a negative index counts from the end, and
      both are clamped to the array\<close>
  "slice xs start end =
     (let len = int (length xs);
          k = (if start < 0 then max (len + start) 0 else min start len);
          relativeEnd = (case end of None \<Rightarrow> len | Some e \<Rightarrow> e);
          final = (if relativeEnd < 0 then max (len + relativeEnd) 0 else min relativeEnd len)
      in take (nat (final - k)) (drop (nat k) xs))"

record RequestQueue =
  nextCallId :: nat
  queuedCalls :: "nat list"

definition isEmpty :: "RequestQueue \<Rightarrow> bool" where
  "isEmpty q = (length (queuedCalls q) = 0)"

definition enqueue :: "RequestQueue \<Rightarrow> nat \<times> RequestQueue" where
  "enqueue q =
     (let ident = nextCallId q
      in (ident, q\<lparr>queuedCalls := queuedCalls q @ [ident], nextCallId := nextCallId q + 1\<rparr>))"

definition peek :: "RequestQueue \<Rightarrow> nat option" where
  \<comment> \<open>\<open>queuedCalls[0]\<close>, \<open>undefined\<close> on the empty queue\<close>
  "peek q = (case queuedCalls q of [] \<Rightarrow> None | el # rest \<Rightarrow> Some el)"

definition dequeue :: "RequestQueue \<Rightarrow> nat option \<times> RequestQueue" where
  "dequeue q = (peek q, q\<lparr>queuedCalls := slice (queuedCalls q) 1 None\<rparr>)"

definition remove :: "nat \<Rightarrow> RequestQueue \<Rightarrow> RequestQueue" where
  "remove ident q =
     (let indexOfId = indexOf (queuedCalls q) ident
      in q\<lparr>queuedCalls :=
             slice (queuedCalls q) 0 (Some indexOfId) @ slice (queuedCalls q) (indexOfId + 1) None\<rparr>)"

section \<open>The rate-limiting gate\<close>

text \<open>
  \<^verbatim>\<open>
  if (this.#shouldQueueRequest) {
    const requestId = this.#requestQueue.enqueue();
    await waitFor(() => !this.#shouldQueueRequest && this.#requestQueue.peek() === requestId);
    this.#requestQueue.dequeue();
  }
  this.#timeOfLastRequest = Date.now();
  \<close>

  Calls run on one thread and give up control only at \<open>await\<close>. A call therefore goes
  through the gate in up to three uninterrupted pieces, which calls of the same client may
  interleave in any order:
  \<^item> \<open>Call now\<close>: \<open>makeRequest\<close> is invoked. Either the call takes a ticket and starts
    waiting, or it goes straight through;
  \<^item> \<open>Tick ident now\<close>: the interval timer of the waiting call with ticket \<open>ident\<close> fires
    and \<open>waitFor\<close> evaluates the predicate; when it holds, the timer is cleared and the
    promise is resolved;
  \<^item> \<open>Resume ident now\<close>: the call with ticket \<open>ident\<close> continues behind its \<open>await\<close>:
    it dequeues and goes through.
  \<open>now\<close> is what \<open>Date.now()\<close> returns during the piece. A call that goes through runs on,
  without giving up control, to the transport call of \<open>makeRequest\<close>; so the order in
  which calls go through the gate is the order in which their dispatches start.
\<close>

datatype passage = Immediate | Ticket nat

record ClientState =
  timeOfLastRequest :: int
  requestQueue :: RequestQueue
  polling :: "nat set"
  resolved :: "nat set"
  passed :: "passage list"

definition initialState :: ClientState where
  "initialState =
     \<lparr>timeOfLastRequest = 0, requestQueue = \<lparr>nextCallId = 0, queuedCalls = []\<rparr>,
      polling = {}, resolved = {}, passed = []\<rparr>"

definition isRateLimited :: "FetchHttpClient \<Rightarrow> bool" where
  "isRateLimited this = (rateLimitMs this > 0)"

definition shouldQueueRequest :: "FetchHttpClient \<Rightarrow> ClientState \<Rightarrow> int \<Rightarrow> bool" where
  "shouldQueueRequest this s now =
     (isRateLimited this \<and> now < timeOfLastRequest s + rateLimitMs this)"

datatype step = Call int | Tick nat int | Resume nat int

fun gate :: "FetchHttpClient \<Rightarrow> ClientState \<Rightarrow> step \<Rightarrow> ClientState" where
  "gate this s (Call now) =
     (if shouldQueueRequest this s now
      then (let (requestId, q) = enqueue (requestQueue s)
            in s\<lparr>requestQueue := q, polling := insert requestId (polling s)\<rparr>)
      else s\<lparr>timeOfLastRequest := now, passed := passed s @ [Immediate]\<rparr>)"
| "gate this s (Tick requestId now) =
     (if requestId \<in> polling s \<and>
         \<not> shouldQueueRequest this s now \<and> peek (requestQueue s) = Some requestId
      then s\<lparr>polling := polling s - {requestId}, resolved := insert requestId (resolved s)\<rparr>
      else s)"
| "gate this s (Resume requestId now) =
     (if requestId \<in> resolved s
      then s\<lparr>resolved := resolved s - {requestId},
              requestQueue := snd (dequeue (requestQueue s)),
              timeOfLastRequest := now,
              passed := passed s @ [Ticket requestId]\<rparr>
      else s)"

definition run :: "FetchHttpClient \<Rightarrow> step list \<Rightarrow> ClientState" where
  "run this steps = foldl (gate this) initialState steps"

fun tickets :: "passage list \<Rightarrow> nat list" where
  "tickets [] = []"
| "tickets (Ticket ident # ps) = ident # tickets ps"
| "tickets (Immediate # ps) = tickets ps"

section \<open>The default instance\<close>

definition FetchService :: FetchHttpClient where
  \<comment> \<open>\<open>new FetchHttpClient()\<close>: no defaults specified\<close>
  "FetchService =
     \<lparr>protocol = Http, host = [], path = [],
      defaultRequestOptions = \<lparr>headers = None, other = []\<rparr>, rateLimitMs = 0\<rparr>"

section \<open>Transports and responses of the test suite\<close>

definition emptyResponse :: Response where
  \<comment> \<open>\<open>new Response()\<close>: no headers, no body; the text is empty and is not JSON\<close>
  "emptyResponse =
     \<lparr>resp_headers = Headers [], resp_body = JNull,
      resp_json = (\<lambda>this. Inl (SyntaxError ''Unexpected end of JSON input'')),
      resp_text = (\<lambda>this. Inr (JString []))\<rparr>"

definition MockResponseObject :: "jsval \<Rightarrow> Headers \<Rightarrow> Response" where
  \<comment> \<open>the mock whose methods read \<open>this.body\<close>, and so fail when called detached\<close>
  "MockResponseObject b hdrs =
     \<lparr>resp_headers = hdrs, resp_body = b,
      resp_json =
        (\<lambda>this. case this of
           None \<Rightarrow> Inl (TypeError ''Cannot read properties of undefined'')
         | Some r \<Rightarrow> Inr (resp_body r)),
      resp_text =
        (\<lambda>this. case this of
           None \<Rightarrow> Inl (TypeError ''Cannot read properties of undefined'')
         | Some r \<Rightarrow> JSON_stringify (resp_body r))\<rparr>"

definition mockFetch :: transport where
  \<comment> \<open>the default mock: resolves to \<open>new Response()\<close>\<close>
  "mockFetch url init = Inr emptyResponse"

definition mockRejected :: "error \<Rightarrow> transport" where
  \<comment> \<open>\<open>mockFetch.mockRejectedValueOnce(error)\<close>\<close>
  "mockRejected e url init = Inl e"

definition mockResolved :: "Response \<Rightarrow> transport" where
  \<comment> \<open>\<open>mockFetch.mockResolvedValueOnce(response)\<close>\<close>
  "mockResolved r url init = Inr r"

definition taggingParser :: "jsval \<Rightarrow> error + jsval" where
  \<comment> \<open>a \<open>responseBodyParser\<close> whose result shows what it was given\<close>
  "taggingParser raw = Inr (JArray [JString ''parsed'', raw])"

section \<open>The URI shape in the words of the specification\<close>

text \<open>
  An optional \<open>scheme://\<close>, an optional host (letters, digits and dots only), an optional
  trailing \<open>/path\<close>. A part that is present is not empty.
\<close>

definition spec_uri_shape :: "string option \<Rightarrow> string option \<Rightarrow> string option \<Rightarrow> bool" where
  "spec_uri_shape scheme hst pth =
     ((case scheme of Some l \<Rightarrow> l \<noteq> [] \<and> list_all isLetter l | None \<Rightarrow> True) \<and>
      (case hst of Some h \<Rightarrow> h \<noteq> [] \<and> list_all isHostChar h | None \<Rightarrow> True) \<and>
      (case pth of
         Some p \<Rightarrow> p \<noteq> [] \<and> hd p = CHR ''/'' \<and> list_all (\<lambda>c. \<not> isLineTerminator c) (tl p)
       | None \<Rightarrow> True))"

definition spec_uri_text :: "string option \<Rightarrow> string option \<Rightarrow> string option \<Rightarrow> string" where
  "spec_uri_text scheme hst pth =
     (case scheme of Some l \<Rightarrow> l @ ''://'' | None \<Rightarrow> []) @
     (case hst of Some h \<Rightarrow> h | None \<Rightarrow> []) @
     (case pth of Some p \<Rightarrow> p | None \<Rightarrow> [])"

section \<open>Header collections in the words of the specification\<close>

definition headerPairs :: "HeadersInit option \<Rightarrow> (string \<times> string) list" where
  \<comment> \<open>the name/value pairs a header collection holds, in order; none when no headers
      are given. A \<open>Headers\<close> object of either class holds each name with the values
      appended under it, which count as one value, joined by a comma and a space.\<close>
  "headerPairs src =
     (case src of
        None \<Rightarrow> []
      | Some (HeadersInstance h) \<Rightarrow> map (\<lambda>kv. (fst kv, join '', '' (snd kv))) (MAP h)
      | Some (PlatformHeaders held) \<Rightarrow> held
      | Some (HeadersArray pairs) \<Rightarrow> pairs
      | Some (HeadersRecord obj) \<Rightarrow> obj)"

definition Headers_invariant :: "Headers \<Rightarrow> bool" where
  \<comment> \<open>what the class keeps of its map: no two keys equal up to case\<close>
  "Headers_invariant h = distinct (map (\<lambda>kv. toLowerCase (fst kv)) (MAP h))"

definition readByClient :: "HeadersInit option \<Rightarrow> bool" where
  \<comment> \<open>the forms the client reads headers from: everything but a \<open>Headers\<close> object of
      the platform's class; an instance of the imported class has the invariant of its
      class\<close>
  "readByClient src =
     (case src of
        None \<Rightarrow> True
      | Some (HeadersInstance h) \<Rightarrow> Headers_invariant h
      | Some (PlatformHeaders held) \<Rightarrow> False
      | Some (HeadersArray pairs) \<Rightarrow> True
      | Some (HeadersRecord obj) \<Rightarrow> True)"

definition lowered :: "(string \<times> string) list \<Rightarrow> (string \<times> string) list" where
  \<comment> \<open>every name lowercased, the values as they are\<close>
  "lowered ps = map (\<lambda>(n, v). (toLowerCase n, v)) ps"

definition lastValue :: "(string \<times> string) list \<Rightarrow> string \<Rightarrow> string option" where
  \<comment> \<open>the value of the last pair under the name\<close>
  "lastValue ps k = map_of (rev ps) k"

section \<open>Construction\<close>

lemma startsWith_slash: "startsWith p ''/'' = (p \<noteq> [] \<and> hd p = CHR ''/'')"
  by (cases p) (simp_all add: startsWith_def)

text \<open>
  Claim C6. Construction throws exactly when the configured path is a non-empty string that
  does not start with \<open>/\<close>. It succeeds for every path that starts with \<open>/\<close>, for the
  empty string and when no path is given; a failed construction returns the error and no
  client, and a client that was constructed has the configured path, which is empty or
  starts with \<open>/\<close>.
\<close>

theorem constructor_path_check:
  "(isl (constructor opts) \<longleftrightarrow>
      (\<exists>p. cfg_path opts = Some p \<and> p \<noteq> [] \<and> hd p \<noteq> CHR ''/'')) \<and>
   (\<forall>this. constructor opts = Inr this \<longrightarrow>
      path this = (case cfg_path opts of Some p \<Rightarrow> p | None \<Rightarrow> []) \<and>
      (path this = [] \<or> hd (path this) = CHR ''/''))"
  by (auto simp: constructor_def Let_def startsWith_slash split: option.splits)

theorem constructor_path_check_witness:
  "isl (constructor \<lparr>cfg_protocol = None, cfg_host = None, cfg_path = Some ''api'',
                     cfg_defaultRequestOptions = None, cfg_rateLimitMs = None\<rparr>) \<and>
   \<not> isl (constructor \<lparr>cfg_protocol = None, cfg_host = None, cfg_path = Some ''/api'',
                     cfg_defaultRequestOptions = None, cfg_rateLimitMs = None\<rparr>) \<and>
   \<not> isl (constructor \<lparr>cfg_protocol = None, cfg_host = None, cfg_path = Some [],
                     cfg_defaultRequestOptions = None, cfg_rateLimitMs = None\<rparr>) \<and>
   \<not> isl (constructor \<lparr>cfg_protocol = None, cfg_host = None, cfg_path = None,
                     cfg_defaultRequestOptions = None, cfg_rateLimitMs = None\<rparr>)"
  using constructor_path_check [of "\<lparr>cfg_protocol = None, cfg_host = None, cfg_path = Some ''api'',
                     cfg_defaultRequestOptions = None, cfg_rateLimitMs = None\<rparr>"]
        constructor_path_check [of "\<lparr>cfg_protocol = None, cfg_host = None, cfg_path = Some ''/api'',
                     cfg_defaultRequestOptions = None, cfg_rateLimitMs = None\<rparr>"]
        constructor_path_check [of "\<lparr>cfg_protocol = None, cfg_host = None, cfg_path = Some [],
                     cfg_defaultRequestOptions = None, cfg_rateLimitMs = None\<rparr>"]
        constructor_path_check [of "\<lparr>cfg_protocol = None, cfg_host = None, cfg_path = None,
                     cfg_defaultRequestOptions = None, cfg_rateLimitMs = None\<rparr>"]
  by simp

section \<open>Removing a ticket that is not queued\<close>

lemma indexOf_absent: "x \<notin> set xs \<Longrightarrow> indexOf xs x = - 1"
  by (induction xs) (auto simp: Let_def)

lemma slice_absent_front: "slice xs 0 (Some (- 1)) = butlast xs"
proof -
  have "nat (int (length xs) - 1) = length xs - 1" by simp
  then show ?thesis
    by (simp add: slice_def Let_def butlast_conv_take max_def)
qed

lemma slice_whole: "slice xs 0 None = xs"
  by (simp add: slice_def Let_def)

lemma remove_absent_eq:
  "ident \<notin> set (queuedCalls q) \<Longrightarrow>
     queuedCalls (remove ident q) = butlast (queuedCalls q) @ queuedCalls q"
  by (simp add: remove_def Let_def indexOf_absent slice_absent_front slice_whole)

text \<open>
  Claim C9, as stated, fails on a queue of one ticket: \<open>remove\<close> of an absent id leaves
  \<open>[0]\<close> as it is, still strictly increasing.
\<close>

theorem remove_absent_single_counterexample:
  "(1::nat) \<notin> set (queuedCalls \<lparr>nextCallId = 1, queuedCalls = [0]\<rparr>) \<and>
   queuedCalls \<lparr>nextCallId = 1, queuedCalls = [0]\<rparr> \<noteq> [] \<and>
   queuedCalls (remove 1 \<lparr>nextCallId = 1, queuedCalls = [0]\<rparr>) =
     queuedCalls \<lparr>nextCallId = 1, queuedCalls = [0]\<rparr> \<and>
   sorted_wrt (<) (queuedCalls (remove 1 \<lparr>nextCallId = 1, queuedCalls = [0]\<rparr>))"
  by (simp add: remove_def slice_def Let_def)

text \<open>
  Claim C9, amended. For a queue whose ticket sequence is \<open>q\<close> and an id that is not in
  \<open>q\<close>, \<open>remove\<close> yields \<open>q\<close> without its last element followed by all of \<open>q\<close>. With
  two tickets or more this changes the queue and the result is not strictly increasing;
  with at most one ticket the queue is unchanged.
\<close>

theorem remove_absent:
  assumes "ident \<notin> set (queuedCalls q)"
  shows "queuedCalls (remove ident q) = butlast (queuedCalls q) @ queuedCalls q \<and>
         (2 \<le> length (queuedCalls q) \<longrightarrow>
            queuedCalls (remove ident q) \<noteq> queuedCalls q \<and>
            \<not> sorted_wrt (<) (queuedCalls (remove ident q))) \<and>
         (length (queuedCalls q) \<le> 1 \<longrightarrow> queuedCalls (remove ident q) = queuedCalls q)"
proof -
  let ?xs = "queuedCalls q"
  have eq: "queuedCalls (remove ident q) = butlast ?xs @ ?xs"
    using assms by (rule remove_absent_eq)
  have small: "length ?xs \<le> 1 \<Longrightarrow> butlast ?xs @ ?xs = ?xs"
    by (cases ?xs) auto
  have big: "\<not> sorted_wrt (<) (butlast ?xs @ ?xs)" and changed: "butlast ?xs @ ?xs \<noteq> ?xs"
    if "2 \<le> length ?xs"
  proof -
    from that obtain x y ys where xs: "?xs = x # y # ys"
      by (cases ?xs; cases "tl ?xs") auto
    then have "x \<in> set (butlast ?xs)" "x \<in> set ?xs" by auto
    then show "\<not> sorted_wrt (<) (butlast ?xs @ ?xs)"
      by (auto simp: sorted_wrt_append)
    show "butlast ?xs @ ?xs \<noteq> ?xs" using xs by auto
  qed
  show ?thesis using eq small big changed by auto
qed

theorem remove_absent_witness:
  "queuedCalls (remove 5 \<lparr>nextCallId = 3, queuedCalls = [0, 1, 2]\<rparr>) = [0, 1, 0, 1, 2] \<and>
   \<not> sorted_wrt (<) (queuedCalls (remove 5 \<lparr>nextCallId = 3, queuedCalls = [0, 1, 2]\<rparr>))"
  using remove_absent [of 5 "\<lparr>nextCallId = 3, queuedCalls = [0, 1, 2]\<rparr>"]
  by simp

section \<open>Order of dispatch under rate limiting\<close>

lemma tickets_append: "tickets (ps @ qs) = tickets ps @ tickets qs"
  by (induction ps rule: tickets.induct) simp_all

lemma slice_tail: "slice xs 1 None = tl xs"
  by (cases xs) (simp_all add: slice_def Let_def min_def drop_Suc)

lemma gate_Call_invariant:
  assumes "tickets (passed s) @ queuedCalls (requestQueue s) = [0..<nextCallId (requestQueue s)]"
  shows "tickets (passed (gate this s (Call now))) @
           queuedCalls (requestQueue (gate this s (Call now))) =
         [0..<nextCallId (requestQueue (gate this s (Call now)))]"
proof (cases "shouldQueueRequest this s now")
  case True
  have "tickets (passed s) @ queuedCalls (requestQueue s) @ [nextCallId (requestQueue s)] =
        [0..<Suc (nextCallId (requestQueue s))]"
    using assms by (simp flip: append_assoc)
  with True show ?thesis by (simp add: enqueue_def Let_def)
next
  case False
  with assms show ?thesis by (simp add: tickets_append)
qed

lemma gate_Call_head:
  assumes "\<forall>x \<in> resolved s. queuedCalls (requestQueue s) \<noteq> [] \<and> hd (queuedCalls (requestQueue s)) = x"
  shows "\<forall>x \<in> resolved (gate this s (Call now)).
            queuedCalls (requestQueue (gate this s (Call now))) \<noteq> [] \<and>
            hd (queuedCalls (requestQueue (gate this s (Call now)))) = x"
  using assms by (cases "shouldQueueRequest this s now") (simp_all add: enqueue_def Let_def)

lemma gate_Tick_invariant:
  assumes "tickets (passed s) @ queuedCalls (requestQueue s) = [0..<nextCallId (requestQueue s)]"
    and "\<forall>x \<in> resolved s. queuedCalls (requestQueue s) \<noteq> [] \<and> hd (queuedCalls (requestQueue s)) = x"
  shows "tickets (passed (gate this s (Tick requestId now))) @
           queuedCalls (requestQueue (gate this s (Tick requestId now))) =
         [0..<nextCallId (requestQueue (gate this s (Tick requestId now)))] \<and>
         (\<forall>x \<in> resolved (gate this s (Tick requestId now)).
            queuedCalls (requestQueue (gate this s (Tick requestId now))) \<noteq> [] \<and>
            hd (queuedCalls (requestQueue (gate this s (Tick requestId now)))) = x)"
proof (cases "requestId \<in> polling s \<and> \<not> shouldQueueRequest this s now \<and>
              peek (requestQueue s) = Some requestId")
  case True
  then have "queuedCalls (requestQueue s) \<noteq> [] \<and> hd (queuedCalls (requestQueue s)) = requestId"
    by (cases "queuedCalls (requestQueue s)") (simp_all add: peek_def)
  with True assms show ?thesis by simp
next
  case False
  with assms show ?thesis by auto
qed

lemma gate_Resume_invariant:
  assumes "tickets (passed s) @ queuedCalls (requestQueue s) = [0..<nextCallId (requestQueue s)]"
    and "\<forall>x \<in> resolved s. queuedCalls (requestQueue s) \<noteq> [] \<and> hd (queuedCalls (requestQueue s)) = x"
  shows "tickets (passed (gate this s (Resume requestId now))) @
           queuedCalls (requestQueue (gate this s (Resume requestId now))) =
         [0..<nextCallId (requestQueue (gate this s (Resume requestId now)))] \<and>
         (\<forall>x \<in> resolved (gate this s (Resume requestId now)).
            queuedCalls (requestQueue (gate this s (Resume requestId now))) \<noteq> [] \<and>
            hd (queuedCalls (requestQueue (gate this s (Resume requestId now)))) = x)"
proof (cases "requestId \<in> resolved s")
  case True
  with assms(2) obtain rest where q: "queuedCalls (requestQueue s) = requestId # rest"
    by (cases "queuedCalls (requestQueue s)") auto
  have only: "resolved s - {requestId} = {}" using assms(2) q by auto
  have "tickets (passed s) @ requestId # rest = [0..<nextCallId (requestQueue s)]"
    using assms(1) q by simp
  moreover have "\<forall>x \<in> resolved s - {requestId}. rest \<noteq> [] \<and> hd rest = x"
    unfolding only by simp
  ultimately show ?thesis using True q
    by (simp add: dequeue_def slice_tail tickets_append)
next
  case False
  with assms show ?thesis by simp
qed

lemma gate_invariant:
  assumes "tickets (passed s) @ queuedCalls (requestQueue s) = [0..<nextCallId (requestQueue s)]"
    and "\<forall>x \<in> resolved s. queuedCalls (requestQueue s) \<noteq> [] \<and> hd (queuedCalls (requestQueue s)) = x"
  shows "tickets (passed (gate this s st)) @ queuedCalls (requestQueue (gate this s st)) =
           [0..<nextCallId (requestQueue (gate this s st))] \<and>
         (\<forall>x \<in> resolved (gate this s st).
            queuedCalls (requestQueue (gate this s st)) \<noteq> [] \<and>
            hd (queuedCalls (requestQueue (gate this s st))) = x)"
proof (cases st)
  case (Call now)
  show ?thesis unfolding Call
    using gate_Call_invariant [OF assms(1)] gate_Call_head [OF assms(2)] by blast
next
  case (Tick requestId now)
  show ?thesis unfolding Tick using assms by (rule gate_Tick_invariant)
next
  case (Resume requestId now)
  show ?thesis unfolding Resume using assms by (rule gate_Resume_invariant)
qed

lemma run_invariant:
  "tickets (passed (run this steps)) @ queuedCalls (requestQueue (run this steps)) =
     [0..<nextCallId (requestQueue (run this steps))] \<and>
   (\<forall>x \<in> resolved (run this steps).
      queuedCalls (requestQueue (run this steps)) \<noteq> [] \<and>
      hd (queuedCalls (requestQueue (run this steps))) = x)"
proof (induction steps rule: rev_induct)
  case Nil
  show ?case by (simp add: run_def initialState_def)
next
  case (snoc st steps)
  have "run this (steps @ [st]) = gate this (run this steps) st"
    by (simp add: run_def)
  with snoc gate_invariant [of "run this steps" this st] show ?case by simp
qed

lemma upt_split:
  assumes "xs @ ys = [0..<n]"
  shows "xs = [0..<length xs] \<and> ys = [length xs..<n]"
proof -
  have "length xs \<le> n" using arg_cong [OF assms, of length] by simp
  then have "[0..<n] = [0..<length xs] @ [length xs..<n]"
    by (metis le_add_diff_inverse upt_add_eq_append zero_le)
  with assms show ?thesis by (simp add: append_eq_append_conv)
qed

lemma run_snoc: "run this (steps @ [st]) = gate this (run this steps) st"
  by (simp add: run_def)

lemma run_snoc2: "run this (steps @ [st, st']) = gate this (gate this (run this steps) st) st'"
  by (simp add: run_def)

text \<open>
  Claim C3, as stated, fails in its last clause: a call that arrives when the interval
  has elapsed takes no ticket and goes through at once, while a call that took a ticket
  before it is still waiting for its next poll. With a rate limit of 50: the call at 1000
  goes through, the call at 1001 takes ticket 0, and the call at 1050 goes through ahead
  of it.
\<close>

theorem gate_overtaking_counterexample:
  "passed (run (FetchService\<lparr>rateLimitMs := 50\<rparr>) [Call 1000, Call 1001, Call 1050]) =
     [Immediate, Immediate] \<and>
   queuedCalls (requestQueue
     (run (FetchService\<lparr>rateLimitMs := 50\<rparr>) [Call 1000, Call 1001, Call 1050])) = [0] \<and>
   polling (run (FetchService\<lparr>rateLimitMs := 50\<rparr>) [Call 1000, Call 1001, Call 1050]) = {0}"
  by (simp add: run_def initialState_def FetchService_def shouldQueueRequest_def isRateLimited_def
        enqueue_def Let_def)

text \<open>
  Claim C3, amended to the calls that took a ticket. However the calls of one client
  interleave, the tickets of the calls that have gone through the gate are
  \<open>0, 1, \<dots>, k - 1\<close> in this order, and the tickets still queued are
  \<open>k, \<dots>, nextCallId - 1\<close>: ticketed calls go through the gate, and so start their
  dispatch, in the order in which they took their tickets, and none of them goes through
  while a call with a smaller ticket is still waiting. A call made while the interval has
  not elapsed takes the next ticket and goes to the end of the queue; a call made when it
  has elapsed takes no ticket and goes through at once, whatever the queue holds; and the
  waiting call at the head of the queue goes through at its first poll after the interval
  has elapsed.
\<close>

theorem gate_fifo:
  "tickets (passed (run this steps)) = [0..<length (tickets (passed (run this steps)))] \<and>
   queuedCalls (requestQueue (run this steps)) =
     [length (tickets (passed (run this steps)))..<nextCallId (requestQueue (run this steps))] \<and>
   (\<forall>i \<in> set (tickets (passed (run this steps))).
      \<forall>j \<in> set (queuedCalls (requestQueue (run this steps))). i < j) \<and>
   (shouldQueueRequest this (run this steps) now \<longrightarrow>
      passed (run this (steps @ [Call now])) = passed (run this steps) \<and>
      queuedCalls (requestQueue (run this (steps @ [Call now]))) =
        queuedCalls (requestQueue (run this steps)) @ [nextCallId (requestQueue (run this steps))]) \<and>
   (\<not> shouldQueueRequest this (run this steps) now \<longrightarrow>
      passed (run this (steps @ [Call now])) = passed (run this steps) @ [Immediate] \<and>
      queuedCalls (requestQueue (run this (steps @ [Call now]))) =
        queuedCalls (requestQueue (run this steps))) \<and>
   (requestId \<in> polling (run this steps) \<and> \<not> shouldQueueRequest this (run this steps) now \<and>
    peek (requestQueue (run this steps)) = Some requestId \<longrightarrow>
      passed (run this (steps @ [Tick requestId now, Resume requestId later])) =
        passed (run this steps) @ [Ticket requestId])"
proof -
  let ?s = "run this steps"
  have "tickets (passed ?s) @ queuedCalls (requestQueue ?s) = [0..<nextCallId (requestQueue ?s)]"
    using run_invariant [of this steps] by simp
  from upt_split [OF this]
  have order: "tickets (passed ?s) = [0..<length (tickets (passed ?s))]"
    and rest: "queuedCalls (requestQueue ?s) =
                 [length (tickets (passed ?s))..<nextCallId (requestQueue ?s)]"
    by simp_all
  have before: "\<forall>i \<in> set (tickets (passed ?s)). \<forall>j \<in> set (queuedCalls (requestQueue ?s)). i < j"
  proof (intro ballI)
    fix i j assume "i \<in> set (tickets (passed ?s))" "j \<in> set (queuedCalls (requestQueue ?s))"
    then have "i \<in> set [0..<length (tickets (passed ?s))]"
      "j \<in> set [length (tickets (passed ?s))..<nextCallId (requestQueue ?s)]"
      using order rest by simp_all
    then show "i < j" by simp
  qed
  have queued: "passed (run this (steps @ [Call now])) = passed ?s \<and>
      queuedCalls (requestQueue (run this (steps @ [Call now]))) =
        queuedCalls (requestQueue ?s) @ [nextCallId (requestQueue ?s)]"
    if "shouldQueueRequest this ?s now"
    unfolding run_snoc using that by (simp add: enqueue_def Let_def)
  have direct: "passed (run this (steps @ [Call now])) = passed ?s @ [Immediate] \<and>
      queuedCalls (requestQueue (run this (steps @ [Call now]))) = queuedCalls (requestQueue ?s)"
    if "\<not> shouldQueueRequest this ?s now"
    unfolding run_snoc using that by simp
  have turn: "passed (run this (steps @ [Tick requestId now, Resume requestId later])) =
        passed ?s @ [Ticket requestId]"
    if "requestId \<in> polling ?s \<and> \<not> shouldQueueRequest this ?s now \<and>
        peek (requestQueue ?s) = Some requestId"
    unfolding run_snoc2 using that by simp
  show ?thesis using order rest before queued direct turn by blast
qed

theorem gate_fifo_witness:
  "passed (run (FetchService\<lparr>rateLimitMs := 50\<rparr>)
             [Call 1000, Call 1001, Call 1002, Tick 1 1051, Tick 0 1051, Resume 0 1052,
              Tick 1 1060, Tick 1 1110, Resume 1 1110]) = [Immediate, Ticket 0, Ticket 1] \<and>
   tickets (passed (run (FetchService\<lparr>rateLimitMs := 50\<rparr>)
             [Call 1000, Call 1001, Call 1002, Tick 1 1051, Tick 0 1051, Resume 0 1052,
              Tick 1 1060, Tick 1 1110, Resume 1 1110])) = [0, 1] \<and>
   passed (run (FetchService\<lparr>rateLimitMs := 50\<rparr>)
             ([Call 1000, Call 1001] @ [Tick 0 1050, Resume 0 1051])) = [Immediate, Ticket 0] \<and>
   queuedCalls (requestQueue (run (FetchService\<lparr>rateLimitMs := 50\<rparr>)
             ([Call 1000] @ [Call 1001]))) = [0]"
  using gate_fifo [of "FetchService\<lparr>rateLimitMs := 50\<rparr>"
             "[Call 1000, Call 1001, Call 1002, Tick 1 1051, Tick 0 1051, Resume 0 1052,
               Tick 1 1060, Tick 1 1110, Resume 1 1110]"]
        gate_fifo [of "FetchService\<lparr>rateLimitMs := 50\<rparr>" "[Call 1000, Call 1001]" 1050 0 1051]
        gate_fifo [of "FetchService\<lparr>rateLimitMs := 50\<rparr>" "[Call 1000]" 1001]
  by (simp add: run_def initialState_def FetchService_def shouldQueueRequest_def isRateLimited_def
        enqueue_def dequeue_def peek_def slice_def Let_def)

section \<open>URI composition: the pattern and the shape\<close>

lemma list_all_takeWhile: "list_all P (takeWhile P xs)"
  by (induction xs) simp_all

lemma match_host_path_sound:
  assumes "match_host_path sc s = Some g"
  shows "protocol_group g = sc \<and> spec_uri_shape None (host_group g) (path_group g) \<and>
         s = spec_uri_text None (host_group g) (path_group g)"
proof -
  let ?h = "takeWhile isHostChar s" and ?r = "dropWhile isHostChar s"
  have s: "s = ?h @ ?r" by simp
  have h: "list_all isHostChar ?h" by (rule list_all_takeWhile)
  show ?thesis
  proof (cases "?r = []")
    case True
    with assms have g: "g = \<lparr>protocol_group = sc, host_group = (if ?h = [] then None else Some ?h),
                            path_group = None\<rparr>"
      by (simp add: match_host_path_def Let_def)
    show ?thesis using h s True unfolding g
      by (auto simp: spec_uri_shape_def spec_uri_text_def)
  next
    case False
    with assms have ok: "hd ?r = CHR ''/'' \<and> list_all (\<lambda>c. \<not> isLineTerminator c) (tl ?r)"
      by (simp add: match_host_path_def Let_def split: if_splits)
    with assms False
    have g: "g = \<lparr>protocol_group = sc, host_group = (if ?h = [] then None else Some ?h),
                   path_group = Some ?r\<rparr>"
      by (auto simp: match_host_path_def Let_def split: if_splits)
    have e: "?h = [] \<Longrightarrow> ?r = s" by (metis append_Nil takeWhile_dropWhile_id)
    show ?thesis using h ok False e unfolding g
      by (auto simp: spec_uri_shape_def spec_uri_text_def)
  qed
qed

lemma URI_REGEX_exec_sound:
  assumes "URI_REGEX_exec s = Some g"
  shows "spec_uri_shape (protocol_group g) (host_group g) (path_group g) \<and>
         s = spec_uri_text (protocol_group g) (host_group g) (path_group g)"
proof -
  let ?l = "takeWhile isLetter s" and ?r = "dropWhile isLetter s"
  let ?w = "if ?l \<noteq> [] \<and> startsWith ?r ''://'' then match_host_path (Some ?l) (drop 3 ?r) else None"
  show ?thesis
  proof (cases ?w)
    case None
    with assms have "match_host_path None s = Some g"
      by (simp add: URI_REGEX_exec_def Let_def)
    from match_host_path_sound [OF this] show ?thesis by simp
  next
    case (Some g')
    with assms have gg: "g' = g" by (simp add: URI_REGEX_exec_def Let_def)
    from Some have c: "?l \<noteq> []" "startsWith ?r ''://''"
      and m: "match_host_path (Some ?l) (drop 3 ?r) = Some g"
      unfolding gg by (simp_all split: if_splits)
    from c(2) have r: "?r = ''://'' @ drop 3 ?r"
      by (metis append_take_drop_id length_Cons list.size(3) numeral_3_eq_3 startsWith_def)
    have s: "s = ?l @ ''://'' @ drop 3 ?r" using r by (metis takeWhile_dropWhile_id)
    from match_host_path_sound [OF m]
    have p: "protocol_group g = Some ?l"
      and sh: "spec_uri_shape None (host_group g) (path_group g)"
      and tx: "drop 3 ?r = spec_uri_text None (host_group g) (path_group g)" by simp_all
    have "spec_uri_shape (Some ?l) (host_group g) (path_group g)"
      using sh c(1) by (simp add: spec_uri_shape_def list_all_takeWhile)
    moreover have "s = spec_uri_text (Some ?l) (host_group g) (path_group g)"
      using s tx by (simp add: spec_uri_text_def)
    ultimately show ?thesis using p by simp
  qed
qed

lemma not_letter_colon: "\<not> isLetter CHR '':''" and not_letter_slash: "\<not> isLetter CHR ''/''"
  and not_host_colon: "\<not> isHostChar CHR '':''" and not_host_slash: "\<not> isHostChar CHR ''/''"
  by (simp_all add: isLetter_def isHostChar_def)

lemma span_all:
  assumes "list_all P xs" and "ys = [] \<or> \<not> P (hd ys)"
  shows "takeWhile P (xs @ ys) = xs" and "dropWhile P (xs @ ys) = ys"
proof -
  have a: "\<And>x. x \<in> set xs \<Longrightarrow> P x" using assms(1) by (simp add: list_all_iff)
  have b: "takeWhile P ys = []" and c: "dropWhile P ys = ys"
    using assms(2) by (cases ys; simp)+
  show "takeWhile P (xs @ ys) = xs" using a b by (simp add: takeWhile_append2)
  show "dropWhile P (xs @ ys) = ys" using a c by (simp add: dropWhile_append2)
qed

lemma match_host_path_shape:
  assumes "spec_uri_shape sc h p"
  shows "match_host_path sc' (spec_uri_text None h p) =
           Some \<lparr>protocol_group = sc', host_group = h, path_group = p\<rparr>"
proof -
  let ?H = "case h of Some x \<Rightarrow> x | None \<Rightarrow> []"
  let ?P = "case p of Some x \<Rightarrow> x | None \<Rightarrow> []"
  have H: "list_all isHostChar ?H" using assms by (auto simp: spec_uri_shape_def split: option.splits)
  have P: "?P = [] \<or> \<not> isHostChar (hd ?P)"
    using assms by (auto simp: spec_uri_shape_def not_host_slash split: option.splits)
  have t: "takeWhile isHostChar (?H @ ?P) = ?H" and d: "dropWhile isHostChar (?H @ ?P) = ?P"
    using span_all [OF H P] by simp_all
  have hg: "(if ?H = [] then None else Some ?H) = h"
    using assms by (auto simp: spec_uri_shape_def split: option.splits)
  have shape_text: "spec_uri_text None h p = ?H @ ?P" by (simp add: spec_uri_text_def)
  show ?thesis
  proof (cases p)
    case None
    then show ?thesis unfolding shape_text match_host_path_def t d using hg by (simp add: Let_def)
  next
    case (Some q)
    then have "q \<noteq> [] \<and> hd q = CHR ''/'' \<and> list_all (\<lambda>c. \<not> isLineTerminator c) (tl q)"
      using assms by (simp add: spec_uri_shape_def)
    then show ?thesis unfolding shape_text match_host_path_def t d using hg Some by (simp add: Let_def)
  qed
qed

lemma no_scheme_start:
  assumes "list_all isHostChar H" and "P = [] \<or> hd P = CHR ''/''"
  shows "\<not> startsWith (dropWhile isLetter (H @ P)) ''://''"
  using assms
proof (induction H)
  case Nil
  then show ?case
    by (cases P) (auto simp: startsWith_def not_letter_slash)
next
  case (Cons c cs)
  then show ?case
    by (cases "isLetter c") (auto simp: startsWith_def not_host_colon)
qed

lemma URI_REGEX_exec_shape:
  assumes "spec_uri_shape sc h p"
  shows "URI_REGEX_exec (spec_uri_text sc h p) =
           Some \<lparr>protocol_group = sc, host_group = h, path_group = p\<rparr>"
proof (cases sc)
  case None
  let ?H = "case h of Some x \<Rightarrow> x | None \<Rightarrow> []"
  let ?P = "case p of Some x \<Rightarrow> x | None \<Rightarrow> []"
  have "list_all isHostChar ?H" "?P = [] \<or> hd ?P = CHR ''/''"
    using assms by (auto simp: spec_uri_shape_def split: option.splits)
  then have "\<not> startsWith (dropWhile isLetter (?H @ ?P)) ''://''" by (rule no_scheme_start)
  then have "\<not> startsWith (dropWhile isLetter (spec_uri_text None h p)) ''://''"
    by (simp add: spec_uri_text_def)
  then show ?thesis
    using match_host_path_shape [OF assms, of None] None
    by (simp add: URI_REGEX_exec_def Let_def)
next
  case (Some l)
  then have l: "l \<noteq> []" "list_all isLetter l"
    using assms by (simp_all add: spec_uri_shape_def)
  let ?rest = "''://'' @ spec_uri_text None h p"
  have shape_text: "spec_uri_text sc h p = l @ ?rest" using Some by (simp add: spec_uri_text_def)
  have "?rest = [] \<or> \<not> isLetter (hd ?rest)" by (simp add: not_letter_colon)
  from span_all [OF l(2) this]
  have t: "takeWhile isLetter (l @ ?rest) = l" and d: "dropWhile isLetter (l @ ?rest) = ?rest"
    by simp_all
  show ?thesis
    unfolding shape_text URI_REGEX_exec_def t d
    using l(1) match_host_path_shape [OF assms, of "Some l"] Some
    by (simp add: Let_def startsWith_def)
qed

text \<open>
  Claim C5. Let the trimmed input have the URI shape, with scheme \<open>sc\<close>, host \<open>h\<close> and
  path \<open>p\<close> (each optional). Then these are exactly the groups the pattern captures, and
  the input is treated as relative iff neither scheme nor host is there. A relative input
  yields \<open>configured-protocol://configured-host\<close> (only when a host is configured)
  followed by the configured path and the captured path; an absolute one yields the
  captured or else configured protocol, \<open>://\<close>, the captured or else configured host,
  the configured path and the captured path.
\<close>

theorem getTreatedUri_composed:
  assumes "spec_uri_shape sc h p" and "trim uri = spec_uri_text sc h p"
  shows "URI_REGEX_exec (trim uri) = Some \<lparr>protocol_group = sc, host_group = h, path_group = p\<rparr> \<and>
         getTreatedUri this uri =
           (if sc = None \<and> h = None
            then (if host this \<noteq> [] then HttpProtocol_value (protocol this) @ ''://'' @ host this
                  else [])
                 @ path this @ (case p of Some q \<Rightarrow> q | None \<Rightarrow> [])
            else (case sc of Some l \<Rightarrow> l | None \<Rightarrow> HttpProtocol_value (protocol this))
                 @ ''://'' @ (case h of Some x \<Rightarrow> x | None \<Rightarrow> host this)
                 @ path this @ (case p of Some q \<Rightarrow> q | None \<Rightarrow> []))"
  using URI_REGEX_exec_shape [OF assms(1)] assms(2)
  by (simp add: getTreatedUri_def Let_def)

theorem getTreatedUri_composed_witness:
  "getTreatedUri (FetchService\<lparr>host := ''google.com'', path := ''/api''\<rparr>) '' gmail.com/somewhere ''
     = ''http://gmail.com/api/somewhere''"
  using getTreatedUri_composed [of None "Some ''gmail.com''" "Some ''/somewhere''"
          "'' gmail.com/somewhere ''" "FetchService\<lparr>host := ''google.com'', path := ''/api''\<rparr>"]
  by (simp add: spec_uri_shape_def spec_uri_text_def trim_def isWhiteSpace_def isHostChar_def
        isLetter_def isLineTerminator_def FetchService_def)

section \<open>Header normalization and merging\<close>

lemma toLowerCase_char_idem: "toLowerCase_char (toLowerCase_char c) = toLowerCase_char c"
  by (cases c) (auto simp: toLowerCase_char_def isUpperCase_def less_eq_char_def)

lemma toLowerCase_idem: "toLowerCase (toLowerCase s) = toLowerCase s"
  by (simp add: toLowerCase_def toLowerCase_char_idem)

lemma map_of_assign:
  "map_of (assign obj kvs) = map_of obj ++ map_of (rev kvs)"
proof (induction kvs arbitrary: obj)
  case Nil
  show ?case by (simp add: assign_def)
next
  case (Cons kv kvs)
  have "map_of (assign obj (kv # kvs)) = map_of (assign (AList.update (fst kv) (snd kv) obj) kvs)"
    by (simp add: assign_def)
  also have "\<dots> = map_of (AList.update (fst kv) (snd kv) obj) ++ map_of (rev kvs)"
    by (rule Cons.IH)
  also have "\<dots> = map_of obj ++ map_of (rev (kv # kvs))"
  proof (rule ext)
    fix k
    show "(map_of (AList.update (fst kv) (snd kv) obj) ++ map_of (rev kvs)) k =
          (map_of obj ++ map_of (rev (kv # kvs))) k"
      by (cases kv) (simp add: update_conv' map_add_def split: option.splits)
  qed
  finally show ?case .
qed

lemma distinct_assign: "distinct (map fst obj) \<Longrightarrow> distinct (map fst (assign obj kvs))"
proof (induction kvs arbitrary: obj)
  case Nil
  then show ?case by (simp add: assign_def)
next
  case (Cons kv kvs)
  have "assign obj (kv # kvs) = assign (AList.update (fst kv) (snd kv) obj) kvs"
    by (simp add: assign_def)
  with Cons show ?case by (simp add: distinct_update)
qed

lemma keys_assign: "fst ` set (assign obj kvs) = fst ` set obj \<union> fst ` set kvs"
proof (induction kvs arbitrary: obj)
  case Nil
  show ?case by (simp add: assign_def)
next
  case (Cons kv kvs)
  have "assign obj (kv # kvs) = assign (AList.update (fst kv) (snd kv) obj) kvs"
    by (simp add: assign_def)
  with Cons show ?case by (auto simp: dom_update)
qed

lemma map_of_spread: "map_of (spread a b) = map_of (rev a) ++ map_of (rev b)"
  by (simp add: spread_def Object_entries_def map_of_assign)

lemma distinct_spread: "distinct (map fst (spread a b))"
  by (simp add: spread_def distinct_assign)

lemma keys_spread: "fst ` set (spread a b) = fst ` set a \<union> fst ` set b"
  by (simp add: spread_def Object_entries_def keys_assign)

lemma map_of_rev_distinct: "distinct (map fst xs) \<Longrightarrow> map_of (rev xs) = map_of xs"
  by (rule map_of_inject_set [THEN iffD2]) (simp_all add: rev_map [symmetric])

lemma map_of_fromEntries: "map_of (Object_fromEntries kvs) = map_of (rev kvs)"
  by (simp add: Object_fromEntries_def map_of_assign)

lemma distinct_fromEntries: "distinct (map fst (Object_fromEntries kvs))"
  by (simp add: Object_fromEntries_def distinct_assign)

lemma keys_fromEntries: "fst ` set (Object_fromEntries kvs) = fst ` set kvs"
  by (simp add: Object_fromEntries_def keys_assign)

lemma keys_lowered: "k \<in> fst ` set (lowered ps) \<Longrightarrow> toLowerCase k = k"
  by (auto simp: lowered_def toLowerCase_idem)

lemma keys_entries: "k \<in> fst ` set (Headers_entries h) \<Longrightarrow> toLowerCase k = k"
  by (auto simp: Headers_entries_def toLowerCase_idem)

lemma getNormalizedHeaders_keys:
  "k \<in> fst ` set (getNormalizedHeaders src) \<Longrightarrow> toLowerCase k = k"
proof (cases src)
  case None
  then show "k \<in> fst ` set (getNormalizedHeaders src) \<Longrightarrow> toLowerCase k = k"
    by (simp add: getNormalizedHeaders_def)
next
  case (Some i)
  assume k: "k \<in> fst ` set (getNormalizedHeaders src)"
  show "toLowerCase k = k"
  proof (cases i)
    case (HeadersInstance h)
    with Some k have "k \<in> fst ` set (Headers_entries h)"
      by (simp add: getNormalizedHeaders_def keys_fromEntries)
    then show ?thesis by (rule keys_entries)
  next
    case (PlatformHeaders held)
    with Some k show ?thesis
      by (simp add: getNormalizedHeaders_def keys_fromEntries Object_entries_def)
  next
    case (HeadersArray ps)
    with Some k have "k \<in> fst ` set (lowered ps)"
      by (simp add: getNormalizedHeaders_def keys_fromEntries lowered_def)
    then show ?thesis by (rule keys_lowered)
  next
    case (HeadersRecord obj)
    with Some k have "k \<in> fst ` set (lowered obj)"
      by (simp add: getNormalizedHeaders_def keys_fromEntries lowered_def Object_entries_def)
    then show ?thesis by (rule keys_lowered)
  qed
qed

lemma getNormalizedHeaders_distinct: "distinct (map fst (getNormalizedHeaders src))"
  by (simp add: getNormalizedHeaders_def distinct_fromEntries split: option.splits HeadersInit.splits)

lemma mergedHeaders_distinct: "distinct (map fst (mergedHeaders this rd))"
  by (simp add: mergedHeaders_def distinct_spread)

lemma mergedHeaders_keys:
  assumes "k \<in> fst ` set (mergedHeaders this rd)"
  shows "toLowerCase k = k"
proof -
  let ?d = "getNormalizedHeaders (headers (defaultRequestOptions this))"
  let ?p = "getNormalizedHeaders (case options rd of Some opts \<Rightarrow> headers opts | None \<Rightarrow> None)"
  from assms have "k \<in> fst ` set ?d \<union> fst ` set ?p"
    by (simp only: mergedHeaders_def keys_spread)
  then show ?thesis using getNormalizedHeaders_keys by blast
qed

lemma find_key_None:
  "\<forall>key \<in> fst ` set m. toLowerCase key \<noteq> toLowerCase name \<Longrightarrow> find_key m name = None"
  by (induction m) auto

lemma find_key_Some:
  assumes "\<forall>key \<in> set (map fst m). toLowerCase key = key"
  shows "find_key m name =
           (if toLowerCase name \<in> set (map fst m) then Some (toLowerCase name) else None)"
  using assms
proof (induction m)
  case Nil
  show ?case by simp
next
  case (Cons kv m)
  obtain key vs where kv: "kv = (key, vs)" by (cases kv)
  have key: "toLowerCase key = key" using Cons.prems kv by simp
  have IH: "find_key m name =
           (if toLowerCase name \<in> set (map fst m) then Some (toLowerCase name) else None)"
    using Cons by simp
  show ?case unfolding kv using key IH by auto
qed

lemma distinct_map_sort_key: "distinct (map f (sort_key f xs)) = distinct (map f xs)"
  by (induction xs) (simp_all add: distinct_insort_key)

lemma Headers_appendAll_distinct:
  assumes "Headers_appendAll (Headers acc) kvs = Inr h"
    and "distinct (map fst acc @ map fst kvs)"
    and "\<forall>k \<in> set (map fst acc @ map fst kvs). toLowerCase k = k"
  shows "MAP h = acc @ map (\<lambda>kv. (fst kv, [snd kv])) kvs"
  using assms
proof (induction kvs arbitrary: acc)
  case Nil
  then show ?case by auto
next
  case (Cons kv kvs)
  have fresh: "fst kv \<notin> set (map fst acc)" using Cons.prems(2) by auto
  have low: "toLowerCase (fst kv) = fst kv" "\<forall>key \<in> set (map fst acc). toLowerCase key = key"
    using Cons.prems(3) by auto
  have "\<forall>key \<in> fst ` set acc. toLowerCase key \<noteq> toLowerCase (fst kv)"
  proof
    fix key assume "key \<in> fst ` set acc"
    then have "key \<in> set (map fst acc)" by simp
    with fresh low show "toLowerCase key \<noteq> toLowerCase (fst kv)" by metis
  qed
  then have nf: "find_key acc (fst kv) = None" by (rule find_key_None)
  from Cons.prems(1) have ap: "Headers_append (Headers acc) (fst kv) (snd kv) = Inr (Headers (acc @ [(fst kv, [snd kv])]))"
    by (auto simp: Headers_append_def nf split: option.splits sum.splits)
  with Cons.prems(1) have "Headers_appendAll (Headers (acc @ [(fst kv, [snd kv])])) kvs = Inr h"
    by simp
  from Cons.IH [OF this] Cons.prems(2,3)
  show ?case by simp
qed

lemma Headers_new_MAP:
  assumes "Headers_new m = Inr h" and "distinct (map fst m)"
    and "\<forall>k \<in> fst ` set m. toLowerCase k = k"
  shows "MAP h = map (\<lambda>kv. (fst kv, [snd kv])) m"
  using Headers_appendAll_distinct [of "[]" m h] assms
  by (simp add: Headers_new_def Object_entries_def)

lemma join_single: "join sep [v] = v"
  by (simp add: join_def)

lemma map_of_singletons:
  "map_of (map (\<lambda>kv. (fst kv, [snd kv])) m) k = map_option (\<lambda>v. [v]) (map_of m k)"
  by (induction m) auto

lemma Headers_get_new:
  assumes "Headers_new m = Inr h" and "distinct (map fst m)"
    and "\<forall>k \<in> fst ` set m. toLowerCase k = k"
  shows "Headers_get h name = map_of m (toLowerCase name)"
proof -
  have M: "MAP h = map (\<lambda>kv. (fst kv, [snd kv])) m" using assms by (rule Headers_new_MAP)
  have keys: "fst ` set (MAP h) = fst ` set m" unfolding M by force
  have fk: "find_key (MAP h) name =
      (if toLowerCase name \<in> fst ` set m then Some (toLowerCase name) else None)"
    using find_key_Some [of "MAP h" name] assms(3) keys by simp
  show ?thesis
  proof (cases "toLowerCase name \<in> fst ` set m")
    case True
    then obtain v where v: "map_of m (toLowerCase name) = Some v"
      by (metis map_of_eq_None_iff not_None_eq)
    with True fk show ?thesis
      by (simp add: Headers_get_def M map_of_singletons join_single)
  next
    case False
    then have "map_of m (toLowerCase name) = None" by (simp add: map_of_eq_None_iff)
    with False fk show ?thesis by (simp add: Headers_get_def)
  qed
qed

lemma Headers_entries_new:
  assumes "Headers_new m = Inr h" and "distinct (map fst m)"
    and "\<forall>k \<in> fst ` set m. toLowerCase k = k"
  shows "map_of (getNormalizedHeaders (Some (HeadersInstance h))) = map_of m"
proof -
  have M: "MAP h = map (\<lambda>kv. (fst kv, [snd kv])) m" using assms by (rule Headers_new_MAP)
  let ?f = "\<lambda>kv. (toLowerCase (fst kv), join '', '' (snd kv))"
  have "set (Headers_entries h) = ?f ` set (MAP h)"
    by (simp add: Headers_entries_def)
  also have "\<dots> = set m"
    unfolding M using assms(3) by (force simp: join_single image_iff)
  finally have s: "set (Headers_entries h) = set m" .
  have "map fst (Headers_entries h) = map toLowerCase (map fst (sort_key fst (MAP h)))"
    by (simp add: Headers_entries_def comp_def)
  moreover have "\<forall>k \<in> set (map fst (sort_key fst (MAP h))). toLowerCase k = k"
    using assms(3) unfolding M by force
  ultimately have "map fst (Headers_entries h) = map fst (sort_key fst (MAP h))"
    by (simp add: map_idI)
  moreover have "distinct (map fst (sort_key fst (MAP h)))"
    using assms(2) unfolding M by (simp add: distinct_map_sort_key comp_def)
  ultimately have d: "distinct (map fst (Headers_entries h))" by simp
  have "map_of (Headers_entries h) = map_of m"
    using d assms(2) s by (simp add: map_of_inject_set)
  then show ?thesis
    by (simp add: getNormalizedHeaders_def map_of_fromEntries map_of_rev_distinct d)
qed

lemma distinct_map_insort_key:
  "distinct (map g (insort_key f x xs)) = (g x \<notin> g ` set xs \<and> distinct (map g xs))"
  by (induction xs) (auto simp: set_insort_key)

lemma distinct_map_sort_key_any: "distinct (map g (sort_key f xs)) = distinct (map g xs)"
  by (induction xs) (simp_all add: distinct_map_insort_key)

lemma find_key_None_iff:
  "find_key m name = None \<longleftrightarrow> (\<forall>key \<in> set (map fst m). toLowerCase key \<noteq> toLowerCase name)"
proof (induction m)
  case Nil
  show ?case by simp
next
  case (Cons kv m)
  obtain key vs where kv: "kv = (key, vs)" by (cases kv)
  show ?case unfolding kv using Cons.IH by (cases "toLowerCase key = toLowerCase name") simp_all
qed

lemma find_key_in: "find_key m name = Some key \<Longrightarrow> key \<in> set (map fst m)"
  by (induction m) (auto split: if_splits)

lemma Headers_append_invariant:
  assumes "Headers_append h name v = Inr h'" and "Headers_invariant h"
  shows "Headers_invariant h'"
proof (cases "find_key (MAP h) name")
  case None
  with assms(1) have h': "MAP h' = MAP h @ [(name, [v])]"
    by (auto simp: Headers_append_def split: option.splits)
  from None have "toLowerCase name \<notin> set (map (\<lambda>kv. toLowerCase (fst kv)) (MAP h))"
    unfolding find_key_None_iff by auto
  with assms(2) show ?thesis by (simp add: Headers_invariant_def h')
next
  case (Some key)
  with assms(1) have h': "MAP h' =
      map (\<lambda>kv. if fst kv = key then (fst kv, snd kv @ [v]) else kv) (MAP h)"
    by (auto simp: Headers_append_def split: option.splits)
  have "map (\<lambda>kv. toLowerCase (fst kv)) (MAP h') = map (\<lambda>kv. toLowerCase (fst kv)) (MAP h)"
    unfolding h' by (induction "MAP h") auto
  with assms(2) show ?thesis by (simp add: Headers_invariant_def)
qed

lemma Headers_appendAll_invariant:
  "Headers_appendAll h kvs = Inr h' \<Longrightarrow> Headers_invariant h \<Longrightarrow> Headers_invariant h'"
proof (induction kvs arbitrary: h)
  case Nil
  then show ?case by simp
next
  case (Cons kv kvs)
  from Cons.prems(1) obtain h1 where a: "Headers_append h (fst kv) (snd kv) = Inr h1"
    and r: "Headers_appendAll h1 kvs = Inr h'"
    by (auto split: sum.splits)
  from Headers_append_invariant [OF a Cons.prems(2)] have "Headers_invariant h1" .
  with r show ?case by (rule Cons.IH)
qed

lemma Headers_new_invariant: "Headers_new init = Inr h \<Longrightarrow> Headers_invariant h"
  unfolding Headers_new_def
  by (erule Headers_appendAll_invariant) (simp add: Headers_invariant_def)

lemma instance_lookup:
  assumes "Headers_invariant h"
  shows "map_of (getNormalizedHeaders (Some (HeadersInstance h))) =
         lastValue (lowered (headerPairs (Some (HeadersInstance h))))"
proof -
  let ?f = "\<lambda>kv. (toLowerCase (fst kv), join '', '' (snd kv))"
  let ?g = "\<lambda>kv. toLowerCase (fst kv)"
  have spec: "lowered (headerPairs (Some (HeadersInstance h))) = map ?f (MAP h)"
    by (simp add: headerPairs_def lowered_def)
  have code: "Headers_entries h = map ?f (sort_key fst (MAP h))"
    by (simp add: Headers_entries_def)
  have keys: "map fst (map ?f xs) = map ?g xs" for xs
    by (induction xs) simp_all
  have inv: "distinct (map ?g (MAP h))"
    using assms by (simp add: Headers_invariant_def)
  then have d1: "distinct (map fst (map ?f (MAP h)))"
    by (simp only: keys)
  have "map fst (map ?f (sort_key fst (MAP h))) = map ?g (sort_key fst (MAP h))"
    by (rule keys)
  then have d2: "distinct (map fst (Headers_entries h))"
    unfolding code using inv
    by (simp only: distinct_map_sort_key_any)
  have "set (Headers_entries h) = set (map ?f (MAP h))"
    unfolding code by simp
  with d1 d2 have "map_of (Headers_entries h) = map_of (map ?f (MAP h))"
    by (simp add: map_of_inject_set)
  moreover have "map_of (rev (Headers_entries h)) = map_of (Headers_entries h)"
    using d2 by (rule map_of_rev_distinct)
  moreover have "map_of (rev (map ?f (MAP h))) = map_of (map ?f (MAP h))"
    using d1 by (rule map_of_rev_distinct)
  ultimately show ?thesis
    unfolding spec by (simp add: getNormalizedHeaders_def map_of_fromEntries lastValue_def fun_eq_iff)
qed

lemma getNormalizedHeaders_lookup:
  assumes "readByClient src"
  shows "map_of (getNormalizedHeaders src) k = lastValue (lowered (headerPairs src)) k"
proof (cases src)
  case None
  then show ?thesis
    by (simp add: getNormalizedHeaders_def headerPairs_def lowered_def lastValue_def)
next
  case (Some i)
  show ?thesis
  proof (cases i)
    case (HeadersInstance h)
    with Some assms have "Headers_invariant h" by (simp add: readByClient_def)
    from instance_lookup [OF this] Some HeadersInstance show ?thesis by simp
  next
    case (PlatformHeaders held)
    with Some assms show ?thesis by (simp add: readByClient_def)
  next
    case (HeadersArray ps)
    with Some show ?thesis
      by (simp add: getNormalizedHeaders_def headerPairs_def lastValue_def lowered_def
            map_of_fromEntries)
  next
    case (HeadersRecord obj)
    with Some show ?thesis
      by (simp add: getNormalizedHeaders_def headerPairs_def lastValue_def lowered_def
            map_of_fromEntries Object_entries_def)
  qed
qed

lemma mergedHeaders_lookup:
  assumes "readByClient (headers (defaultRequestOptions this))"
    and "readByClient (case options rd of Some opts \<Rightarrow> headers opts | None \<Rightarrow> None)"
  shows "map_of (mergedHeaders this rd) k =
     (case lastValue (lowered (headerPairs
              (case options rd of Some opts \<Rightarrow> headers opts | None \<Rightarrow> None))) k of
        Some v \<Rightarrow> Some v
      | None \<Rightarrow> lastValue (lowered (headerPairs (headers (defaultRequestOptions this)))) k)"
  by (simp add: mergedHeaders_def map_of_spread map_of_rev_distinct getNormalizedHeaders_distinct
        map_add_def getNormalizedHeaders_lookup [OF assms(1)] getNormalizedHeaders_lookup [OF assms(2)]
        split: option.splits)

text \<open>
  Where the client reads both sources, the merged object is what one expects: lowercased
  keys, each once; under a key the per-call value if there is one, the default value
  otherwise, both unchanged; and the header collection built from it returns these values
  under any spelling of the name.
\<close>

lemma mergedHeaders_normalized:
  assumes "readByClient (headers (defaultRequestOptions this))"
    and "readByClient (case options rd of Some opts \<Rightarrow> headers opts | None \<Rightarrow> None)"
  shows "(\<forall>k \<in> fst ` set (mergedHeaders this rd). toLowerCase k = k) \<and>
   distinct (map fst (mergedHeaders this rd)) \<and>
   (\<forall>k. map_of (mergedHeaders this rd) k =
      (case lastValue (lowered (headerPairs
               (case options rd of Some opts \<Rightarrow> headers opts | None \<Rightarrow> None))) k of
         Some v \<Rightarrow> Some v
       | None \<Rightarrow> lastValue (lowered (headerPairs (headers (defaultRequestOptions this)))) k)) \<and>
   (\<forall>h name. Headers_new (mergedHeaders this rd) = Inr h \<longrightarrow>
      Headers_get h name = map_of (mergedHeaders this rd) (toLowerCase name))"
proof (intro conjI allI impI ballI)
  fix k assume "k \<in> fst ` set (mergedHeaders this rd)"
  then show "toLowerCase k = k" by (rule mergedHeaders_keys)
next
  show "distinct (map fst (mergedHeaders this rd))" by (rule mergedHeaders_distinct)
next
  fix k
  show "map_of (mergedHeaders this rd) k =
      (case lastValue (lowered (headerPairs
               (case options rd of Some opts \<Rightarrow> headers opts | None \<Rightarrow> None))) k of
         Some v \<Rightarrow> Some v
       | None \<Rightarrow> lastValue (lowered (headerPairs (headers (defaultRequestOptions this)))) k)"
    using assms by (rule mergedHeaders_lookup)
next
  fix h name assume "Headers_new (mergedHeaders this rd) = Inr h"
  then show "Headers_get h name = map_of (mergedHeaders this rd) (toLowerCase name)"
    using mergedHeaders_distinct mergedHeaders_keys by (intro Headers_get_new) auto
qed

lemma mergedHeaders_normalized_example:
  "map_of (mergedHeaders
      (FetchService\<lparr>defaultRequestOptions :=
         \<lparr>headers = Some (HeadersInstance
                             (Headers [(''Authorization'', [''1234'']), (''X-Powered-By'', [''jtjs''])])),
          other = []\<rparr>\<rparr>)
      \<lparr>body = JUndefined,
       options = Some \<lparr>headers = Some (HeadersArray [(''AUTHORIZATION'', ''blah'')]), other = []\<rparr>,
       responseBodyParser = None, allowThrow = None\<rparr>) ''authorization'' = Some ''blah'' \<and>
   map_of (mergedHeaders
      (FetchService\<lparr>defaultRequestOptions :=
         \<lparr>headers = Some (HeadersInstance
                             (Headers [(''Authorization'', [''1234'']), (''X-Powered-By'', [''jtjs''])])),
          other = []\<rparr>\<rparr>)
      \<lparr>body = JUndefined,
       options = Some \<lparr>headers = Some (HeadersArray [(''AUTHORIZATION'', ''blah'')]), other = []\<rparr>,
       responseBodyParser = None, allowThrow = None\<rparr>) ''x-powered-by'' = Some ''jtjs''"
  using mergedHeaders_normalized [of
      "FetchService\<lparr>defaultRequestOptions :=
         \<lparr>headers = Some (HeadersInstance
                             (Headers [(''Authorization'', [''1234'']), (''X-Powered-By'', [''jtjs''])])),
          other = []\<rparr>\<rparr>"
      "\<lparr>body = JUndefined,
       options = Some \<lparr>headers = Some (HeadersArray [(''AUTHORIZATION'', ''blah'')]), other = []\<rparr>,
       responseBodyParser = None, allowThrow = None\<rparr>"]
  by (simp add: FetchService_def headerPairs_def lowered_def lastValue_def readByClient_def
        Headers_invariant_def join_def toLowerCase_def toLowerCase_char_def isUpperCase_def)

section \<open>The shape of a call\<close>

lemma requestHeaders_lookup:
  assumes "Headers_new m = Inr h" and "distinct (map fst m)"
    and "\<forall>k \<in> fst ` set m. toLowerCase k = k"
  shows "map_of (requestHeaders h cto) k =
     (if isContentTypePresent cto
      then (if k = ''accept'' then Some (the cto @ '', */*;q=0.9'')
            else if k = ''content-type'' then cto else map_of m k)
      else (if k = ''accept'' \<and> map_of m k = None then Some ''*/*'' else map_of m k))"
proof -
  let ?N = "getNormalizedHeaders (Some (HeadersInstance h))"
  have N: "map_of ?N = map_of m" using assms by (rule Headers_entries_new)
  have inner: "map_of (rev (spread [(''accept'', ''*/*'')] ?N)) =
               map_of [(''accept'', ''*/*'')] ++ map_of m"
    by (simp add: map_of_rev_distinct distinct_spread map_of_spread
          getNormalizedHeaders_distinct N)
  show ?thesis
  proof (cases cto)
    case None
    then show ?thesis
      by (simp add: requestHeaders_def map_of_spread inner isContentTypePresent_def map_add_def
            split: option.splits)
  next
    case (Some ct)
    then show ?thesis
      by (simp add: requestHeaders_def map_of_spread inner isContentTypePresent_def map_add_def
            split: option.splits)
  qed
qed

lemma makeRequest_unfold:
  assumes "Headers_new (mergedHeaders this rd) = Inr h"
  shows "makeRequest fetch this method uri rd =
     (case tryBlock fetch this method uri rd h
             (contentTypeToUse (Headers_get h ''content-type'') (body rd))
             (isJsonRequest (Headers_get h ''content-type'') (body rd)) of
        (trace, Inr result) \<Rightarrow> (trace, Resolved result)
      | (trace, Inl e) \<Rightarrow>
          (trace @ [OnError e],
           if allowThrow rd = Some True then Rejected e
           else Resolved \<lparr>response = None, parsed_body = JUndefined\<rparr>))"
  using assms by (simp add: makeRequest_def Let_def)

lemma Headers_get_merged:
  assumes "Headers_new (mergedHeaders this rd) = Inr h"
  shows "Headers_get h ''content-type'' = map_of (mergedHeaders this rd) ''content-type''"
proof -
  have "Headers_get h ''content-type'' = map_of (mergedHeaders this rd) (toLowerCase ''content-type'')"
    using assms mergedHeaders_distinct mergedHeaders_keys by (intro Headers_get_new) auto
  then show ?thesis by (simp add: toLowerCase_def toLowerCase_char_def isUpperCase_def)
qed

lemma tryBlock_no_OnError: "filter isOnError (fst (tryBlock fetch this method uri rd h cto js)) = []"
  by (simp add: tryBlock_def Let_def split: sum.splits option.splits)

lemma tryBlock_stringify_fails:
  assumes "(if js then JSON_stringify (body rd) else Inr (body rd)) = Inl e"
  shows "tryBlock fetch this method uri rd h cto js = ([], Inl e)"
  using assms by (simp add: tryBlock_def Let_def)

lemma tryBlock_dispatched:
  assumes "(if js then JSON_stringify (body rd) else Inr (body rd)) = Inr b"
  shows "dispatched (fst (tryBlock fetch this method uri rd h cto js)) =
           Some (getTreatedUri this uri, requestOptions this method rd h cto b)"
  using assms by (simp add: tryBlock_def Let_def split: sum.splits option.splits)

lemma dispatched_append_OnError: "dispatched (tr @ [OnError e]) = dispatched tr"
  by (induction tr rule: dispatched.induct) simp_all

lemma makeRequest_dispatched:
  assumes "Headers_new (mergedHeaders this rd) = Inr h"
  shows "dispatched (fst (makeRequest fetch this method uri rd)) =
           dispatched (fst (tryBlock fetch this method uri rd h
             (contentTypeToUse (Headers_get h ''content-type'') (body rd))
             (isJsonRequest (Headers_get h ''content-type'') (body rd))))"
  unfolding makeRequest_unfold [OF assms]
  by (simp add: dispatched_append_OnError split: prod.splits sum.splits)

lemmas eval_defs =
  makeRequest_def mergedHeaders_def FetchService_def getNormalizedHeaders_def Object_fromEntries_def
  Object_entries_def assign_def spread_def Headers_new_def Headers_append_def validateName_def
  validateValue_def isTokenChar_def isHeaderChar_def toLowerCase_def toLowerCase_char_def
  isUpperCase_def Headers_get_def Headers_entries_def join_def tryBlock_def requestHeaders_def
  requestOptions_def defaultBodyParser_def getTreatedUri_def trim_def isWhiteSpace_def
  URI_REGEX_exec_def match_host_path_def isLetter_def isHostChar_def isLineTerminator_def
  startsWith_def bind_def receiver_def JSON_stringify_def Number_toString_def digits.simps
  digit_char_def QuoteJSONString_def QuoteJSONChar_def isContentTypePresent_def isJsonRequest_def
  contentTypeToUse_def Let_def mockFetch_def mockRejected_def mockResolved_def emptyResponse_def

section \<open>Headers of the platform's class\<close>

text \<open>
  Claim C8 asks that every key of either source be retained, whichever of the admitted
  forms the source has. The client loses the headers of a \<open>Headers\<close> object of the
  platform's class: the object holds \<open>authorization: 1234\<close>, the merged object has no
  key at all, and the transport is called with the accept header alone. The same headers
  in an instance of the imported class are retained.
\<close>

theorem platform_headers_lost:
  "headerPairs (Some (PlatformHeaders [(''authorization'', ''1234'')])) =
     [(''authorization'', ''1234'')] \<and>
   mergedHeaders FetchService
     \<lparr>body = JUndefined,
      options = Some \<lparr>headers = Some (PlatformHeaders [(''authorization'', ''1234'')]),
                      other = []\<rparr>,
      responseBodyParser = None, allowThrow = None\<rparr> = [] \<and>
   map_option (init_headers \<circ> snd)
     (dispatched (fst (makeRequest mockFetch FetchService ''GET'' ''http://google.com''
        \<lparr>body = JUndefined,
         options = Some \<lparr>headers = Some (PlatformHeaders [(''authorization'', ''1234'')]),
                         other = []\<rparr>,
         responseBodyParser = None, allowThrow = None\<rparr>))) = Some [(''accept'', ''*/*'')] \<and>
   mergedHeaders FetchService
     \<lparr>body = JUndefined,
      options = Some \<lparr>headers = Some (HeadersInstance (Headers [(''authorization'', [''1234''])])),
                      other = []\<rparr>,
      responseBodyParser = None, allowThrow = None\<rparr> = [(''authorization'', ''1234'')]"
  by (simp add: headerPairs_def eval_defs)

section \<open>Content type, serialization and the accept header\<close>

text \<open>
  Claim C1, as stated, fails when the content-type header given is \<open>application/json\<close>
  and the body is truthy: the transport receives the JSON text of the body, not the body.
\<close>

theorem content_type_json_serialized_counterexample:
  "map_of (mergedHeaders FetchService
      \<lparr>body = JObject [(''prop'', JNumber 1)],
       options = Some \<lparr>headers = Some (HeadersRecord [(''content-type'', ''application/json'')]),
                       other = []\<rparr>,
       responseBodyParser = None, allowThrow = None\<rparr>) ''content-type'' = Some ''application/json'' \<and>
   map_option (init_body \<circ> snd)
     (dispatched (fst (makeRequest mockFetch FetchService ''POST'' ''http://google.com''
        \<lparr>body = JObject [(''prop'', JNumber 1)],
         options = Some \<lparr>headers = Some (HeadersRecord [(''content-type'', ''application/json'')]),
                         other = []\<rparr>,
         responseBodyParser = None, allowThrow = None\<rparr>)))
   = Some (JString [CHR ''{'', CHR 0x22, CHR ''p'', CHR ''r'', CHR ''o'', CHR ''p'', CHR 0x22,
                    CHR '':'', CHR ''1'', CHR ''}''])"
  by (simp add: eval_defs)

text \<open>
  Claim C1, amended. Let the merged headers be legal and hold a non-empty content-type.
  If the content type is not \<open>application/json\<close> (compared without case) or the body is
  falsy, the transport is called and receives the body of the caller as it is. If the
  content type is \<open>application/json\<close> (compared without case) and the body is truthy,
  the body is JSON-serialized: the transport is called and receives the JSON text of the
  body, or, when the serialization throws, the transport is not called and the error is
  caught. Whenever the transport is called, it is called with the composed URI, the accept
  header is the content type followed by \<open>, */*;q=0.9\<close>, and the content-type header is
  the content type.
\<close>

theorem content_type_passthrough:
  assumes "Headers_new (mergedHeaders this rd) = Inr h"
    and "map_of (mergedHeaders this rd) ''content-type'' = Some ct"
    and "ct \<noteq> []"
  shows "((toLowerCase ct \<noteq> ''application/json'' \<or> \<not> truthy (body rd)) \<longrightarrow>
            map_option (init_body \<circ> snd)
              (dispatched (fst (makeRequest fetch this method uri rd))) = Some (body rd)) \<and>
         (toLowerCase ct = ''application/json'' \<and> truthy (body rd) \<longrightarrow>
            (case JSON_stringify (body rd) of
               Inr b \<Rightarrow>
                 map_option (init_body \<circ> snd)
                   (dispatched (fst (makeRequest fetch this method uri rd))) = Some b
             | Inl e \<Rightarrow>
                 makeRequest fetch this method uri rd =
                   ([OnError e],
                    if allowThrow rd = Some True then Rejected e
                    else Resolved \<lparr>response = None, parsed_body = JUndefined\<rparr>))) \<and>
         (\<forall>url init. dispatched (fst (makeRequest fetch this method uri rd)) = Some (url, init) \<longrightarrow>
            url = getTreatedUri this uri \<and>
            map_of (init_headers init) ''accept'' = Some (ct @ '', */*;q=0.9'') \<and>
            map_of (init_headers init) ''content-type'' = Some ct)"
proof -
  let ?cth = "Headers_get h ''content-type''"
  let ?js = "isJsonRequest ?cth (body rd)"
  let ?cto = "contentTypeToUse ?cth (body rd)"
  have cth: "?cth = Some ct" using Headers_get_merged [OF assms(1)] assms(2) by simp
  have cto: "?cto = Some ct" using cth assms(3)
    by (simp add: contentTypeToUse_def isContentTypePresent_def)
  have d: "dispatched (fst (makeRequest fetch this method uri rd)) =
           dispatched (fst (tryBlock fetch this method uri rd h ?cto ?js))"
    by (rule makeRequest_dispatched [OF assms(1)])
  have hd: "map_of (requestHeaders h (Some ct)) ''accept'' = Some (ct @ '', */*;q=0.9'')"
      "map_of (requestHeaders h (Some ct)) ''content-type'' = Some ct"
    using requestHeaders_lookup [OF assms(1) mergedHeaders_distinct, of "Some ct"]
      mergedHeaders_keys assms(3)
    by (simp_all add: isContentTypePresent_def)
  have first: "map_option (init_body \<circ> snd)
              (dispatched (fst (makeRequest fetch this method uri rd))) = Some (body rd)"
    if "toLowerCase ct \<noteq> ''application/json'' \<or> \<not> truthy (body rd)"
  proof -
    from that have "\<not> ?js" using cth assms(3)
      by (auto simp: isJsonRequest_def isContentTypePresent_def)
    then have "(if ?js then JSON_stringify (body rd) else Inr (body rd)) = Inr (body rd)" by simp
    from tryBlock_dispatched [OF this] show ?thesis unfolding d
      by (simp add: requestOptions_def)
  qed
  have second: "url = getTreatedUri this uri \<and>
            map_of (init_headers init) ''accept'' = Some (ct @ '', */*;q=0.9'') \<and>
            map_of (init_headers init) ''content-type'' = Some ct"
    if "dispatched (fst (makeRequest fetch this method uri rd)) = Some (url, init)" for url init
  proof (cases "if ?js then JSON_stringify (body rd) else Inr (body rd)")
    case (Inl e)
    from tryBlock_stringify_fails [OF this] that show ?thesis unfolding d by simp
  next
    case (Inr b)
    from tryBlock_dispatched [OF this] that
    have "url = getTreatedUri this uri" "init = requestOptions this method rd h ?cto b"
      unfolding d by simp_all
    then show ?thesis using hd cto by (simp add: requestOptions_def)
  qed
  have third: "case JSON_stringify (body rd) of
               Inr b \<Rightarrow>
                 map_option (init_body \<circ> snd)
                   (dispatched (fst (makeRequest fetch this method uri rd))) = Some b
             | Inl e \<Rightarrow>
                 makeRequest fetch this method uri rd =
                   ([OnError e],
                    if allowThrow rd = Some True then Rejected e
                    else Resolved \<lparr>response = None, parsed_body = JUndefined\<rparr>)"
    if "toLowerCase ct = ''application/json'' \<and> truthy (body rd)"
  proof -
    from that have js: "(if ?js then JSON_stringify (body rd) else Inr (body rd)) =
                          JSON_stringify (body rd)"
      using cth by (simp add: isJsonRequest_def)
    show ?thesis
    proof (cases "JSON_stringify (body rd)")
      case (Inl e)
      with js have "(if ?js then JSON_stringify (body rd) else Inr (body rd)) = Inl e" by simp
      from tryBlock_stringify_fails [OF this]
      have "makeRequest fetch this method uri rd =
              ([OnError e],
               if allowThrow rd = Some True then Rejected e
               else Resolved \<lparr>response = None, parsed_body = JUndefined\<rparr>)"
        unfolding makeRequest_unfold [OF assms(1)] by simp
      with Inl show ?thesis by simp
    next
      case (Inr b)
      with js have "(if ?js then JSON_stringify (body rd) else Inr (body rd)) = Inr b" by simp
      from tryBlock_dispatched [OF this]
      have "map_option (init_body \<circ> snd)
              (dispatched (fst (makeRequest fetch this method uri rd))) = Some b"
        unfolding d by (simp add: requestOptions_def)
      with Inr show ?thesis by simp
    qed
  qed
  show ?thesis using first second third by blast
qed

theorem content_type_passthrough_witness:
  "map_option (init_body \<circ> snd)
     (dispatched (fst (makeRequest mockFetch FetchService ''POST'' ''http://google.com''
        \<lparr>body = JString ''something'',
         options = Some \<lparr>headers = Some (HeadersRecord [(''content-type'', ''text/plain'')]),
                         other = []\<rparr>,
         responseBodyParser = None, allowThrow = None\<rparr>))) = Some (JString ''something'') \<and>
   map_option (init_body \<circ> snd)
     (dispatched (fst (makeRequest mockFetch FetchService ''POST'' ''http://google.com''
        \<lparr>body = JObject [(''prop'', JNumber 1)],
         options = Some \<lparr>headers = Some (HeadersRecord [(''Content-Type'', ''Application/JSON'')]),
                         other = []\<rparr>,
         responseBodyParser = None, allowThrow = None\<rparr>)))
   = Some (JString [CHR ''{'', CHR 0x22, CHR ''p'', CHR ''r'', CHR ''o'', CHR ''p'', CHR 0x22,
                    CHR '':'', CHR ''1'', CHR ''}'']) \<and>
   makeRequest mockFetch FetchService ''POST'' ''http://google.com''
        \<lparr>body = JBigInt 10,
         options = Some \<lparr>headers = Some (HeadersRecord [(''content-type'', ''application/json'')]),
                         other = []\<rparr>,
         responseBodyParser = None, allowThrow = None\<rparr>
   = ([OnError (TypeError ''Do not know how to serialize a BigInt'')], Resolved \<lparr>response = None, parsed_body = JUndefined\<rparr>)"
proof -
  have a: "map_option (init_body \<circ> snd)
     (dispatched (fst (makeRequest mockFetch FetchService ''POST'' ''http://google.com''
        \<lparr>body = JString ''something'',
         options = Some \<lparr>headers = Some (HeadersRecord [(''content-type'', ''text/plain'')]),
                         other = []\<rparr>,
         responseBodyParser = None, allowThrow = None\<rparr>))) = Some (JString ''something'')"
    using content_type_passthrough [of FetchService
        "\<lparr>body = JString ''something'',
         options = Some \<lparr>headers = Some (HeadersRecord [(''content-type'', ''text/plain'')]),
                         other = []\<rparr>,
         responseBodyParser = None, allowThrow = None\<rparr>"
        "Headers [(''content-type'', [''text/plain''])]" "''text/plain''" mockFetch "''POST''"
        "''http://google.com''"]
    by (simp add: mergedHeaders_def FetchService_def getNormalizedHeaders_def Object_fromEntries_def
      Object_entries_def assign_def spread_def Headers_new_def Headers_append_def validateName_def
      validateValue_def isTokenChar_def isHeaderChar_def toLowerCase_def toLowerCase_char_def
      isUpperCase_def)
  have b: "map_option (init_body \<circ> snd)
     (dispatched (fst (makeRequest mockFetch FetchService ''POST'' ''http://google.com''
        \<lparr>body = JObject [(''prop'', JNumber 1)],
         options = Some \<lparr>headers = Some (HeadersRecord [(''Content-Type'', ''Application/JSON'')]),
                         other = []\<rparr>,
         responseBodyParser = None, allowThrow = None\<rparr>)))
     = Some (JString [CHR ''{'', CHR 0x22, CHR ''p'', CHR ''r'', CHR ''o'', CHR ''p'', CHR 0x22,
                    CHR '':'', CHR ''1'', CHR ''}''])"
    using content_type_passthrough [of FetchService
        "\<lparr>body = JObject [(''prop'', JNumber 1)],
         options = Some \<lparr>headers = Some (HeadersRecord [(''Content-Type'', ''Application/JSON'')]),
                         other = []\<rparr>,
         responseBodyParser = None, allowThrow = None\<rparr>"
        "Headers [(''content-type'', [''Application/JSON''])]" "''Application/JSON''" mockFetch
        "''POST''" "''http://google.com''"]
    by (simp add: eval_defs)
  have c: "makeRequest mockFetch FetchService ''POST'' ''http://google.com''
        \<lparr>body = JBigInt 10,
         options = Some \<lparr>headers = Some (HeadersRecord [(''content-type'', ''application/json'')]),
                         other = []\<rparr>,
         responseBodyParser = None, allowThrow = None\<rparr>
     = ([OnError (TypeError ''Do not know how to serialize a BigInt'')], Resolved \<lparr>response = None, parsed_body = JUndefined\<rparr>)"
    using content_type_passthrough [of FetchService
        "\<lparr>body = JBigInt 10,
         options = Some \<lparr>headers = Some (HeadersRecord [(''content-type'', ''application/json'')]),
                         other = []\<rparr>,
         responseBodyParser = None, allowThrow = None\<rparr>"
        "Headers [(''content-type'', [''application/json''])]" "''application/json''" mockFetch
        "''POST''" "''http://google.com''"]
    by (simp add: eval_defs)
  from a b c show ?thesis by simp
qed

text \<open>Serializing changes every body but \<open>undefined\<close>; so it changes every truthy body.\<close>

lemma length_quoted: "length s \<le> length (concat (map QuoteJSONChar s))"
proof (induction s)
  case Nil
  show ?case by simp
next
  case (Cons c s)
  have "1 \<le> length (QuoteJSONChar c)" by (simp add: QuoteJSONChar_def)
  with Cons show ?case by simp
qed

lemma QuoteJSONString_changes: "QuoteJSONString s \<noteq> s"
proof
  assume "QuoteJSONString s = s"
  then have "length (QuoteJSONString s) = length s" by simp
  moreover have "length (QuoteJSONString s) = length (concat (map QuoteJSONChar s)) + 2"
    by (simp add: QuoteJSONString_def)
  ultimately show False using length_quoted [of s] by simp
qed

lemma JSON_stringify_changes: "v \<noteq> JUndefined \<Longrightarrow> JSON_stringify v \<noteq> Inr v"
  by (cases v) (auto simp: JSON_stringify_def QuoteJSONString_changes split: sum.splits option.splits)

lemma JSON_stringify_truthy: "truthy v \<Longrightarrow> JSON_stringify v \<noteq> Inr v"
  by (rule JSON_stringify_changes) auto

text \<open>
  Claim C10, as stated, fails when the content-type header is there but empty: it is
  neither absent nor equal to \<open>application/json\<close>, and a truthy body is serialized all
  the same.
\<close>

theorem empty_content_type_serialized_counterexample:
  "map_of (mergedHeaders FetchService
      \<lparr>body = JObject [(''prop'', JNumber 1)],
       options = Some \<lparr>headers = Some (HeadersRecord [(''content-type'', [])]), other = []\<rparr>,
       responseBodyParser = None, allowThrow = None\<rparr>) ''content-type'' = Some [] \<and>
   toLowerCase [] \<noteq> ''application/json'' \<and>
   map_option (init_body \<circ> snd)
     (dispatched (fst (makeRequest mockFetch FetchService ''POST'' ''http://google.com''
        \<lparr>body = JObject [(''prop'', JNumber 1)],
         options = Some \<lparr>headers = Some (HeadersRecord [(''content-type'', [])]), other = []\<rparr>,
         responseBodyParser = None, allowThrow = None\<rparr>)))
   = Some (JString [CHR ''{'', CHR 0x22, CHR ''p'', CHR ''r'', CHR ''o'', CHR ''p'', CHR 0x22,
                    CHR '':'', CHR ''1'', CHR ''}''])"
  by (simp add: eval_defs)

text \<open>
  Claim C10, amended. With legal merged headers, the body is serialized iff it is truthy
  and the merged content-type is absent, empty, or equal to \<open>application/json\<close> up
  to case. Then the transport receives \<open>JSON.stringify(body)\<close>, or, should that throw,
  is not called and the error goes to the on-error channel. Otherwise the transport
  receives the body as it is. With a falsy body and no content-type header, the request
  carries no content-type.
\<close>

theorem json_serialization_iff:
  assumes "Headers_new (mergedHeaders this rd) = Inr h"
  shows "(truthy (body rd) \<and>
          (map_of (mergedHeaders this rd) ''content-type'' = None \<or>
           map_of (mergedHeaders this rd) ''content-type'' = Some [] \<or>
           map_option toLowerCase (map_of (mergedHeaders this rd) ''content-type'') =
             Some ''application/json'') \<longrightarrow>
            (case JSON_stringify (body rd) of
               Inr b \<Rightarrow> map_option (init_body \<circ> snd)
                          (dispatched (fst (makeRequest fetch this method uri rd))) = Some b
             | Inl e \<Rightarrow> fst (makeRequest fetch this method uri rd) = [OnError e])) \<and>
         (\<not> (truthy (body rd) \<and>
          (map_of (mergedHeaders this rd) ''content-type'' = None \<or>
           map_of (mergedHeaders this rd) ''content-type'' = Some [] \<or>
           map_option toLowerCase (map_of (mergedHeaders this rd) ''content-type'') =
             Some ''application/json'')) \<longrightarrow>
            map_option (init_body \<circ> snd)
              (dispatched (fst (makeRequest fetch this method uri rd))) = Some (body rd)) \<and>
         (\<not> truthy (body rd) \<and> map_of (mergedHeaders this rd) ''content-type'' = None \<longrightarrow>
            map_option (\<lambda>d. map_of (init_headers (snd d)) ''content-type'')
              (dispatched (fst (makeRequest fetch this method uri rd))) = Some None)"
proof -
  let ?m = "map_of (mergedHeaders this rd) ''content-type''"
  let ?cth = "Headers_get h ''content-type''"
  let ?js = "isJsonRequest ?cth (body rd)"
  let ?cto = "contentTypeToUse ?cth (body rd)"
  let ?ser = "truthy (body rd) \<and> (?m = None \<or> ?m = Some [] \<or>
                 map_option toLowerCase ?m = Some ''application/json'')"
  have cth: "?cth = ?m" by (rule Headers_get_merged [OF assms])
  have js: "?js = ?ser"
    unfolding cth by (cases ?m) (auto simp: isJsonRequest_def isContentTypePresent_def)
  have d: "dispatched (fst (makeRequest fetch this method uri rd)) =
           dispatched (fst (tryBlock fetch this method uri rd h ?cto ?js))"
    by (rule makeRequest_dispatched [OF assms])
  have one: "case JSON_stringify (body rd) of
               Inr b \<Rightarrow> map_option (init_body \<circ> snd)
                          (dispatched (fst (makeRequest fetch this method uri rd))) = Some b
             | Inl e \<Rightarrow> fst (makeRequest fetch this method uri rd) = [OnError e]" if ?ser
  proof (cases "JSON_stringify (body rd)")
    case (Inl e)
    from that js have ?js by blast
    with Inl have "(if ?js then JSON_stringify (body rd) else Inr (body rd)) = Inl e" by simp
    from tryBlock_stringify_fails [OF this] Inl show ?thesis
      unfolding makeRequest_unfold [OF assms] by simp
  next
    case (Inr b)
    from that js have ?js by blast
    with Inr have "(if ?js then JSON_stringify (body rd) else Inr (body rd)) = Inr b" by simp
    from tryBlock_dispatched [OF this] Inr show ?thesis unfolding d
      by (simp add: requestOptions_def)
  qed
  have two: "map_option (init_body \<circ> snd)
              (dispatched (fst (makeRequest fetch this method uri rd))) = Some (body rd)"
    if "\<not> ?ser"
  proof -
    from that js have "\<not> ?js" by blast
    then have "(if ?js then JSON_stringify (body rd) else Inr (body rd)) = Inr (body rd)"
      by simp
    from tryBlock_dispatched [OF this] show ?thesis unfolding d
      by (simp add: requestOptions_def)
  qed
  have three: "map_option (\<lambda>d. map_of (init_headers (snd d)) ''content-type'')
              (dispatched (fst (makeRequest fetch this method uri rd))) = Some None"
    if "\<not> truthy (body rd)" "?m = None"
  proof -
    from that js have "\<not> ?js" by blast
    then have "(if ?js then JSON_stringify (body rd) else Inr (body rd)) = Inr (body rd)"
      by simp
    note disp = tryBlock_dispatched [OF this]
    have cto: "?cto = None" using that cth
      by (simp add: contentTypeToUse_def isJsonRequest_def)
    have "map_of (requestHeaders h None) ''content-type'' = None"
      using requestHeaders_lookup [OF assms mergedHeaders_distinct, of None "''content-type''"]
        mergedHeaders_keys that(2)
      by (simp add: isContentTypePresent_def)
    then show ?thesis unfolding d disp by (simp add: requestOptions_def cto)
  qed
  show ?thesis using one two three by blast
qed

theorem json_serialization_iff_witness:
  "map_option (init_body \<circ> snd)
     (dispatched (fst (makeRequest mockFetch FetchService ''POST'' ''http://google.com''
        \<lparr>body = JObject [(''prop'', JNumber 1)],
         options = Some \<lparr>headers = Some (HeadersRecord
                           [(''Content-Type'', ''application/json; charset=utf-8'')]),
                         other = []\<rparr>,
         responseBodyParser = None, allowThrow = None\<rparr>)))
   = Some (JObject [(''prop'', JNumber 1)]) \<and>
   map_option (\<lambda>d. map_of (init_headers (snd d)) ''content-type'')
     (dispatched (fst (makeRequest mockFetch FetchService ''POST'' ''http://google.com''
        \<lparr>body = JString [], options = None, responseBodyParser = None, allowThrow = None\<rparr>)))
   = Some None"
  using json_serialization_iff [of FetchService
        "\<lparr>body = JObject [(''prop'', JNumber 1)],
         options = Some \<lparr>headers = Some (HeadersRecord
                           [(''Content-Type'', ''application/json; charset=utf-8'')]),
                         other = []\<rparr>,
         responseBodyParser = None, allowThrow = None\<rparr>"
        "Headers [(''content-type'', [''application/json; charset=utf-8''])]" mockFetch
        "''POST''" "''http://google.com''"]
      json_serialization_iff [of FetchService
        "\<lparr>body = JString [], options = None, responseBodyParser = None, allowThrow = None\<rparr>"
        "Headers []" mockFetch "''POST''" "''http://google.com''"]
  by (simp add: mergedHeaders_def FetchService_def getNormalizedHeaders_def Object_fromEntries_def
  Object_entries_def assign_def spread_def Headers_new_def Headers_append_def validateName_def
  validateValue_def isTokenChar_def isHeaderChar_def toLowerCase_def toLowerCase_char_def
  isUpperCase_def)

section \<open>Errors\<close>

lemma no_OnError_member: "filter isOnError tr = [] \<Longrightarrow> OnError e \<notin> set tr"
  by (auto simp: filter_empty_conv)

lemma makeRequest_cases:
  obtains (illegal) e where "Headers_new (mergedHeaders this rd) = Inl e"
      and "makeRequest fetch this method uri rd = ([], Rejected e)"
  | (returned) h tr res where "Headers_new (mergedHeaders this rd) = Inr h"
      and "tryBlock fetch this method uri rd h
             (contentTypeToUse (Headers_get h ''content-type'') (body rd))
             (isJsonRequest (Headers_get h ''content-type'') (body rd)) = (tr, Inr res)"
      and "makeRequest fetch this method uri rd = (tr, Resolved res)"
  | (caught) h tr e where "Headers_new (mergedHeaders this rd) = Inr h"
      and "tryBlock fetch this method uri rd h
             (contentTypeToUse (Headers_get h ''content-type'') (body rd))
             (isJsonRequest (Headers_get h ''content-type'') (body rd)) = (tr, Inl e)"
      and "makeRequest fetch this method uri rd =
             (tr @ [OnError e],
              if allowThrow rd = Some True then Rejected e
              else Resolved \<lparr>response = None, parsed_body = JUndefined\<rparr>)"
proof (cases "Headers_new (mergedHeaders this rd)")
  case (Inl e)
  then have "makeRequest fetch this method uri rd = ([], Rejected e)"
    by (simp add: makeRequest_def)
  with Inl show ?thesis by (rule illegal)
next
  case (Inr h)
  let ?t = "tryBlock fetch this method uri rd h
             (contentTypeToUse (Headers_get h ''content-type'') (body rd))
             (isJsonRequest (Headers_get h ''content-type'') (body rd))"
  obtain tr r where t: "?t = (tr, r)" by (cases ?t)
  show ?thesis
  proof (cases r)
    case (Inl e)
    with t have "makeRequest fetch this method uri rd =
             (tr @ [OnError e],
              if allowThrow rd = Some True then Rejected e
              else Resolved \<lparr>response = None, parsed_body = JUndefined\<rparr>)"
      unfolding makeRequest_unfold [OF Inr] by simp
    with Inr t Inl show ?thesis by (intro caught) simp_all
  next
    case (Inr res)
    with t have "makeRequest fetch this method uri rd = (tr, Resolved res)"
      unfolding makeRequest_unfold [OF \<open>Headers_new (mergedHeaders this rd) = Inr h\<close>] by simp
    with \<open>Headers_new (mergedHeaders this rd) = Inr h\<close> t Inr show ?thesis
      by (intro returned) simp_all
  qed
qed

lemma tryBlock_fetch_fails:
  assumes "(if js then JSON_stringify (body rd) else Inr (body rd)) = Inr b"
    and "fetch (getTreatedUri this uri) (requestOptions this method rd h cto b) = Inl e"
  shows "snd (tryBlock fetch this method uri rd h cto js) = Inl e"
  using assms by (simp add: tryBlock_def Let_def)

lemma tryBlock_parse_fails:
  assumes "(if js then JSON_stringify (body rd) else Inr (body rd)) = Inr b"
    and "fetch (getTreatedUri this uri) (requestOptions this method rd h cto b) = Inr r"
    and "(case responseBodyParser rd of
            Some parser \<Rightarrow> parser (resp_body r)
          | None \<Rightarrow> defaultBodyParser r ()) = Inl e"
  shows "snd (tryBlock fetch this method uri rd h cto js) = Inl e"
  using assms by (simp add: tryBlock_def Let_def)

text \<open>
  Claim C4. When a call catches an error, that is, when the guarded region throws it, the
  call fires the on-error channel with that error as its next and last event, and the
  channel fires exactly once in the call; the returned promise rejects with the same error
  if \<open>allowThrow\<close> is \<open>true\<close>, and resolves to \<open>{ response: undefined, body: undefined }\<close>
  if \<open>allowThrow\<close> is \<open>false\<close> or left out. So it is, in particular, when the transport
  rejects. Conversely, a call that fires the on-error channel fires it once, and settles
  in the same way.
\<close>

theorem error_notified_once:
  "(\<forall>h tr. Headers_new (mergedHeaders this rd) = Inr h \<and>
      tryBlock fetch this method uri rd h
        (contentTypeToUse (Headers_get h ''content-type'') (body rd))
        (isJsonRequest (Headers_get h ''content-type'') (body rd)) = (tr, Inl e) \<longrightarrow>
      fst (makeRequest fetch this method uri rd) = tr @ [OnError e] \<and>
      filter isOnError (fst (makeRequest fetch this method uri rd)) = [OnError e] \<and>
      snd (makeRequest fetch this method uri rd) =
        (if allowThrow rd = Some True then Rejected e
         else Resolved \<lparr>response = None, parsed_body = JUndefined\<rparr>)) \<and>
   (\<forall>h b. Headers_new (mergedHeaders this rd) = Inr h \<and>
      (if isJsonRequest (Headers_get h ''content-type'') (body rd)
       then JSON_stringify (body rd) else Inr (body rd)) = Inr b \<and>
      fetch (getTreatedUri this uri)
        (requestOptions this method rd h
           (contentTypeToUse (Headers_get h ''content-type'') (body rd)) b) = Inl e \<longrightarrow>
      filter isOnError (fst (makeRequest fetch this method uri rd)) = [OnError e] \<and>
      snd (makeRequest fetch this method uri rd) =
        (if allowThrow rd = Some True then Rejected e
         else Resolved \<lparr>response = None, parsed_body = JUndefined\<rparr>)) \<and>
   (OnError e \<in> set (fst (makeRequest fetch this method uri rd)) \<longrightarrow>
      filter isOnError (fst (makeRequest fetch this method uri rd)) = [OnError e] \<and>
      snd (makeRequest fetch this method uri rd) =
        (if allowThrow rd = Some True then Rejected e
         else Resolved \<lparr>response = None, parsed_body = JUndefined\<rparr>))"
proof -
  let ?settle = "if allowThrow rd = Some True then Rejected e
         else Resolved \<lparr>response = None, parsed_body = JUndefined\<rparr>"
  let ?m = "makeRequest fetch this method uri rd"
  have forward: "fst ?m = tr @ [OnError e] \<and> filter isOnError (fst ?m) = [OnError e] \<and>
      snd ?m = ?settle"
    if "Headers_new (mergedHeaders this rd) = Inr h"
      "tryBlock fetch this method uri rd h
        (contentTypeToUse (Headers_get h ''content-type'') (body rd))
        (isJsonRequest (Headers_get h ''content-type'') (body rd)) = (tr, Inl e)" for h tr
  proof -
    have "filter isOnError tr = []"
      using tryBlock_no_OnError [of fetch this "method" uri rd h] that(2) by (metis fst_conv)
    moreover have "?m = (tr @ [OnError e], ?settle)"
      unfolding makeRequest_unfold [OF that(1)] using that(2) by simp
    ultimately show ?thesis by simp
  qed
  have transport: "filter isOnError (fst ?m) = [OnError e] \<and> snd ?m = ?settle"
    if "Headers_new (mergedHeaders this rd) = Inr h"
      "(if isJsonRequest (Headers_get h ''content-type'') (body rd)
       then JSON_stringify (body rd) else Inr (body rd)) = Inr b"
      "fetch (getTreatedUri this uri)
        (requestOptions this method rd h
           (contentTypeToUse (Headers_get h ''content-type'') (body rd)) b) = Inl e" for h b
  proof -
    note hn = that(1) and sb = that(2) and f = that(3)
    let ?t = "tryBlock fetch this method uri rd h
        (contentTypeToUse (Headers_get h ''content-type'') (body rd))
        (isJsonRequest (Headers_get h ''content-type'') (body rd))"
    have "snd ?t = Inl e" using sb f by (rule tryBlock_fetch_fails)
    then obtain tr where "?t = (tr, Inl e)" by (cases ?t) simp
    from forward [OF hn this] show ?thesis by blast
  qed
  have backward: "filter isOnError (fst ?m) = [OnError e] \<and> snd ?m = ?settle"
    if "OnError e \<in> set (fst ?m)"
  proof (cases rule: makeRequest_cases [of this rd fetch "method" uri])
    case (illegal e')
    with that show ?thesis by simp
  next
    case (returned h tr res)
    have "filter isOnError tr = []"
      using tryBlock_no_OnError [of fetch this "method" uri rd h] returned(2) by (metis fst_conv)
    then have "OnError e \<notin> set tr" by (rule no_OnError_member)
    with that returned(3) show ?thesis by simp
  next
    case (caught h tr e')
    have f: "filter isOnError tr = []"
      using tryBlock_no_OnError [of fetch this "method" uri rd h] caught(2) by (metis fst_conv)
    then have "OnError e \<notin> set tr" by (rule no_OnError_member)
    with that caught(3) have "e' = e" by simp
    with caught(3) f show ?thesis by simp
  qed
  show ?thesis using forward transport backward by blast
qed

theorem error_notified_once_witness:
  "makeRequest (mockRejected (Error ''Boom!'')) FetchService ''GET'' ''/somewhere''
        \<lparr>body = JUndefined, options = None, responseBodyParser = None, allowThrow = Some True\<rparr>
     = ([OnSendRequest ''/somewhere''
           \<lparr>init_other = [], init_method = ''GET'', init_headers = [(''accept'', ''*/*'')],
            init_body = JUndefined\<rparr>,
         Fetch ''/somewhere''
           \<lparr>init_other = [], init_method = ''GET'', init_headers = [(''accept'', ''*/*'')],
            init_body = JUndefined\<rparr>,
         OnError (Error ''Boom!'')],
        Rejected (Error ''Boom!'')) \<and>
   snd (makeRequest (mockRejected (Error ''Boom!'')) FetchService ''GET'' ''/somewhere''
        \<lparr>body = JUndefined, options = None, responseBodyParser = None, allowThrow = None\<rparr>)
     = Resolved \<lparr>response = None, parsed_body = JUndefined\<rparr> \<and>
   makeRequest mockFetch FetchService ''POST'' ''/somewhere''
        \<lparr>body = JBigInt 10, options = None, responseBodyParser = None, allowThrow = Some True\<rparr>
     = ([OnError (TypeError ''Do not know how to serialize a BigInt'')],
        Rejected (TypeError ''Do not know how to serialize a BigInt'')) \<and>
   filter isOnError (fst (makeRequest
        (mockResolved (emptyResponse\<lparr>resp_headers := Headers [(''content-type'', [''application/json''])]\<rparr>))
        FetchService ''GET'' ''/somewhere''
        \<lparr>body = JUndefined, options = None, responseBodyParser = None, allowThrow = Some False\<rparr>))
     = [OnError (SyntaxError ''Unexpected end of JSON input'')] \<and>
   snd (makeRequest
        (mockResolved (emptyResponse\<lparr>resp_headers := Headers [(''content-type'', [''application/json''])]\<rparr>))
        FetchService ''GET'' ''/somewhere''
        \<lparr>body = JUndefined, options = None, responseBodyParser = None, allowThrow = Some False\<rparr>)
     = Resolved \<lparr>response = None, parsed_body = JUndefined\<rparr>"
  using error_notified_once [of FetchService
          "\<lparr>body = JUndefined, options = None, responseBodyParser = None, allowThrow = Some True\<rparr>"
          "mockRejected (Error ''Boom!'')" "''GET''" "''/somewhere''" "Error ''Boom!''"]
        error_notified_once [of FetchService
          "\<lparr>body = JUndefined, options = None, responseBodyParser = None, allowThrow = None\<rparr>"
          "mockRejected (Error ''Boom!'')" "''GET''" "''/somewhere''" "Error ''Boom!''"]
        error_notified_once [of FetchService
          "\<lparr>body = JBigInt 10, options = None, responseBodyParser = None, allowThrow = Some True\<rparr>"
          mockFetch "''POST''" "''/somewhere''" "TypeError ''Do not know how to serialize a BigInt''"]
        error_notified_once [of FetchService
          "\<lparr>body = JUndefined, options = None, responseBodyParser = None, allowThrow = Some False\<rparr>"
          "mockResolved (emptyResponse\<lparr>resp_headers := Headers [(''content-type'', [''application/json''])]\<rparr>)"
          "''GET''" "''/somewhere''" "SyntaxError ''Unexpected end of JSON input''"]
  by (simp add: eval_defs)




section \<open>Parsing the response body\<close>

lemma startsWith_prefix: "startsWith s p = prefix p s"
  unfolding startsWith_def
proof
  assume "take (length p) s = p"
  then show "prefix p s" by (metis take_is_prefix)
next
  assume "prefix p s"
  then show "take (length p) s = p" by (auto simp: prefix_def)
qed

lemma includes_str_sublist: "includes_str s sub = sublist sub s"
  by (induction s) (simp_all add: startsWith_prefix sublist_Cons_right)

lemma resolved_body_source:
  assumes "snd (makeRequest fetch this method uri rd) =
             Resolved \<lparr>response = Some r, parsed_body = b\<rparr>"
  shows "(\<exists>init. fetch (getTreatedUri this uri) init = Inr r) \<and>
         (case responseBodyParser rd of
            Some parser \<Rightarrow> parser (resp_body r) = Inr b
          | None \<Rightarrow>
              if \<exists>ct. Headers_get (resp_headers r) ''content-type'' = Some ct \<and>
                      sublist ''application/json'' ct
              then resp_json r (Some (receiver r)) = Inr b
              else resp_text r (Some (receiver r)) = Inr b)"
proof (cases rule: makeRequest_cases [of this rd fetch "method" uri])
  case (illegal e)
  with assms show ?thesis by simp
next
  case (caught h tr e)
  with assms show ?thesis by (simp split: if_splits)
next
  case (returned h tr res)
  let ?js = "isJsonRequest (Headers_get h ''content-type'') (body rd)"
  let ?cto = "contentTypeToUse (Headers_get h ''content-type'') (body rd)"
  let ?sb = "if ?js then JSON_stringify (body rd) else Inr (body rd)"
  from returned(3) assms have res: "res = \<lparr>response = Some r, parsed_body = b\<rparr>" by simp
  note t = returned(2) [unfolded res]
  obtain sb where sb: "?sb = Inr sb"
    using t by (cases ?sb) (simp_all add: tryBlock_def Let_def)
  let ?init = "requestOptions this method rd h ?cto sb"
  obtain r' where f: "fetch (getTreatedUri this uri) ?init = Inr r'"
    using t sb by (cases "fetch (getTreatedUri this uri) ?init") (simp_all add: tryBlock_def Let_def)
  let ?p = "case responseBodyParser rd of
              Some parser \<Rightarrow> parser (resp_body r')
            | None \<Rightarrow> defaultBodyParser r' ()"
  obtain b' where p: "?p = Inr b'"
    using t sb f by (cases ?p) (simp_all add: tryBlock_def Let_def)
  from t sb f p have eq: "r' = r" "b' = b" by (simp_all add: tryBlock_def Let_def)
  have "case responseBodyParser rd of
            Some parser \<Rightarrow> parser (resp_body r) = Inr b
          | None \<Rightarrow>
              if \<exists>ct. Headers_get (resp_headers r) ''content-type'' = Some ct \<and>
                      sublist ''application/json'' ct
              then resp_json r (Some (receiver r)) = Inr b
              else resp_text r (Some (receiver r)) = Inr b"
    using p unfolding eq
    by (auto simp: defaultBodyParser_def bind_def includes_str_sublist split: option.splits)
  with f eq show ?thesis by blast
qed

lemma MockResponseObject_sel:
  "resp_headers (MockResponseObject b hdrs) = hdrs"
  "resp_body (MockResponseObject b hdrs) = b"
  "resp_json (MockResponseObject b hdrs) (Some this) = Inr (resp_body this)"
  "resp_text (MockResponseObject b hdrs) (Some this) = JSON_stringify (resp_body this)"
  by (simp_all add: MockResponseObject_def)

lemma tryBlock_returns:
  assumes "(if js then JSON_stringify (body rd) else Inr (body rd)) = Inr b"
    and "fetch (getTreatedUri this uri) (requestOptions this method rd h cto b) = Inr r"
    and "(case responseBodyParser rd of
            Some parser \<Rightarrow> parser (resp_body r)
          | None \<Rightarrow> defaultBodyParser r ()) = Inr parsed"
  shows "snd (tryBlock fetch this method uri rd h cto js) =
           Inr \<lparr>response = Some r, parsed_body = parsed\<rparr>"
  using assms by (simp add: tryBlock_def Let_def)

lemma defaultBodyParser_eq:
  "defaultBodyParser r () =
     (if \<exists>ct. Headers_get (resp_headers r) ''content-type'' = Some ct \<and>
             sublist ''application/json'' ct
      then resp_json r (Some (receiver r)) else resp_text r (Some (receiver r)))"
  by (auto simp: defaultBodyParser_def bind_def includes_str_sublist split: option.splits)

text \<open>
  Claim C7. Once the transport has returned a response \<open>r\<close>, the body is parsed by the
  \<open>responseBodyParser\<close>, called on the raw body of \<open>r\<close>, if one was supplied, whatever
  the content type of \<open>r\<close>; otherwise by the \<open>json\<close> method of \<open>r\<close> if the
  content-type header of \<open>r\<close> contains \<open>application/json\<close> as a substring, and by its
  \<open>text\<close> method if not, the method being called with \<open>r\<close> as its receiver. If the
  parsing returns \<open>b\<close>, the call resolves to \<open>r\<close> and \<open>b\<close>; if it throws, the error is
  caught. Conversely, a call that resolves to a response \<open>r\<close> and a body \<open>b\<close> got \<open>r\<close>
  from the transport for the composed URI, and \<open>b\<close> from that parsing.
\<close>

theorem response_body_parsing:
  "(\<forall>h sb r. Headers_new (mergedHeaders this rd) = Inr h \<and>
      (if isJsonRequest (Headers_get h ''content-type'') (body rd)
       then JSON_stringify (body rd) else Inr (body rd)) = Inr sb \<and>
      fetch (getTreatedUri this uri)
        (requestOptions this method rd h
           (contentTypeToUse (Headers_get h ''content-type'') (body rd)) sb) = Inr r \<longrightarrow>
      (case (case responseBodyParser rd of
               Some parser \<Rightarrow> parser (resp_body r)
             | None \<Rightarrow>
                 if \<exists>ct. Headers_get (resp_headers r) ''content-type'' = Some ct \<and>
                         sublist ''application/json'' ct
                 then resp_json r (Some (receiver r))
                 else resp_text r (Some (receiver r))) of
         Inr b \<Rightarrow>
           snd (makeRequest fetch this method uri rd) =
             Resolved \<lparr>response = Some r, parsed_body = b\<rparr>
       | Inl e \<Rightarrow>
           snd (makeRequest fetch this method uri rd) =
             (if allowThrow rd = Some True then Rejected e
              else Resolved \<lparr>response = None, parsed_body = JUndefined\<rparr>))) \<and>
   (\<forall>r b. snd (makeRequest fetch this method uri rd) =
             Resolved \<lparr>response = Some r, parsed_body = b\<rparr> \<longrightarrow>
      (\<exists>init. fetch (getTreatedUri this uri) init = Inr r) \<and>
      (case responseBodyParser rd of
         Some parser \<Rightarrow> parser (resp_body r) = Inr b
       | None \<Rightarrow>
           if \<exists>ct. Headers_get (resp_headers r) ''content-type'' = Some ct \<and>
                   sublist ''application/json'' ct
           then resp_json r (Some (receiver r)) = Inr b
           else resp_text r (Some (receiver r)) = Inr b))"
proof (rule conjI; intro allI impI)
  fix h sb r
  let ?js = "isJsonRequest (Headers_get h ''content-type'') (body rd)"
  let ?cto = "contentTypeToUse (Headers_get h ''content-type'') (body rd)"
  let ?t = "tryBlock fetch this method uri rd h ?cto ?js"
  let ?p = "case responseBodyParser rd of
              Some parser \<Rightarrow> parser (resp_body r)
            | None \<Rightarrow> defaultBodyParser r ()"
  assume a: "Headers_new (mergedHeaders this rd) = Inr h \<and>
      (if ?js then JSON_stringify (body rd) else Inr (body rd)) = Inr sb \<and>
      fetch (getTreatedUri this uri) (requestOptions this method rd h ?cto sb) = Inr r"
  then have hn: "Headers_new (mergedHeaders this rd) = Inr h"
    and sb: "(if ?js then JSON_stringify (body rd) else Inr (body rd)) = Inr sb"
    and f: "fetch (getTreatedUri this uri) (requestOptions this method rd h ?cto sb) = Inr r"
    by blast+
  have spec: "(case responseBodyParser rd of
               Some parser \<Rightarrow> parser (resp_body r)
             | None \<Rightarrow>
                 if \<exists>ct. Headers_get (resp_headers r) ''content-type'' = Some ct \<and>
                         sublist ''application/json'' ct
                 then resp_json r (Some (receiver r))
                 else resp_text r (Some (receiver r))) = ?p"
    by (simp only: defaultBodyParser_eq)
  have "case ?p of
         Inr b \<Rightarrow>
           snd (makeRequest fetch this method uri rd) =
             Resolved \<lparr>response = Some r, parsed_body = b\<rparr>
       | Inl e \<Rightarrow>
           snd (makeRequest fetch this method uri rd) =
             (if allowThrow rd = Some True then Rejected e
              else Resolved \<lparr>response = None, parsed_body = JUndefined\<rparr>)"
  proof (cases ?p)
    case (Inl e)
    have "snd ?t = Inl e"
      using sb f Inl by (rule tryBlock_parse_fails)
    then obtain tr where "?t = (tr, Inl e)"
      by (cases ?t) simp
    then have "snd (makeRequest fetch this method uri rd) =
             (if allowThrow rd = Some True then Rejected e
              else Resolved \<lparr>response = None, parsed_body = JUndefined\<rparr>)"
      unfolding makeRequest_unfold [OF hn] by simp
    with Inl show ?thesis by simp
  next
    case (Inr b)
    have "snd ?t = Inr \<lparr>response = Some r, parsed_body = b\<rparr>"
      using sb f Inr by (rule tryBlock_returns)
    then obtain tr where "?t = (tr, Inr \<lparr>response = Some r, parsed_body = b\<rparr>)"
      by (cases ?t) simp
    then have "snd (makeRequest fetch this method uri rd) =
                 Resolved \<lparr>response = Some r, parsed_body = b\<rparr>"
      unfolding makeRequest_unfold [OF hn] by simp
    with Inr show ?thesis by simp
  qed
  then show "case (case responseBodyParser rd of
               Some parser \<Rightarrow> parser (resp_body r)
             | None \<Rightarrow>
                 if \<exists>ct. Headers_get (resp_headers r) ''content-type'' = Some ct \<and>
                         sublist ''application/json'' ct
                 then resp_json r (Some (receiver r))
                 else resp_text r (Some (receiver r))) of
         Inr b \<Rightarrow>
           snd (makeRequest fetch this method uri rd) =
             Resolved \<lparr>response = Some r, parsed_body = b\<rparr>
       | Inl e \<Rightarrow>
           snd (makeRequest fetch this method uri rd) =
             (if allowThrow rd = Some True then Rejected e
              else Resolved \<lparr>response = None, parsed_body = JUndefined\<rparr>)"
    by (simp only: spec)
next
  fix r b
  assume "snd (makeRequest fetch this method uri rd) =
             Resolved \<lparr>response = Some r, parsed_body = b\<rparr>"
  then show "(\<exists>init. fetch (getTreatedUri this uri) init = Inr r) \<and>
      (case responseBodyParser rd of
         Some parser \<Rightarrow> parser (resp_body r) = Inr b
       | None \<Rightarrow>
           if \<exists>ct. Headers_get (resp_headers r) ''content-type'' = Some ct \<and>
                   sublist ''application/json'' ct
           then resp_json r (Some (receiver r)) = Inr b
           else resp_text r (Some (receiver r)) = Inr b)"
    by (rule resolved_body_source)
qed

theorem response_body_parsing_witness:
  "snd (makeRequest
         (mockResolved (MockResponseObject (JObject [(''prop'', JNumber 1)])
            (Headers [(''content-type'', [''application/json''])])))
         FetchService ''POST'' ''/somewhere''
         \<lparr>body = JUndefined, options = None, responseBodyParser = Some taggingParser,
          allowThrow = None\<rparr>) =
     Resolved \<lparr>response = Some (MockResponseObject (JObject [(''prop'', JNumber 1)])
                   (Headers [(''content-type'', [''application/json''])])),
               parsed_body = JArray [JString ''parsed'', JObject [(''prop'', JNumber 1)]]\<rparr> \<and>
   snd (makeRequest
         (mockResolved (MockResponseObject (JObject [(''prop'', JNumber 1)])
            (Headers [(''content-type'', [''application/json; charset=utf-8''])])))
         FetchService ''POST'' ''/somewhere''
         \<lparr>body = JUndefined, options = None, responseBodyParser = None, allowThrow = None\<rparr>) =
     Resolved \<lparr>response = Some (MockResponseObject (JObject [(''prop'', JNumber 1)])
                   (Headers [(''content-type'', [''application/json; charset=utf-8''])])),
               parsed_body = JObject [(''prop'', JNumber 1)]\<rparr> \<and>
   snd (makeRequest
         (mockResolved (MockResponseObject (JNumber 7)
            (Headers [(''content-type'', [''application/xml''])])))
         FetchService ''POST'' ''/somewhere''
         \<lparr>body = JUndefined, options = None, responseBodyParser = None, allowThrow = None\<rparr>) =
     Resolved \<lparr>response = Some (MockResponseObject (JNumber 7)
                   (Headers [(''content-type'', [''application/xml''])])),
               parsed_body = JString ''7''\<rparr>"
proof -
  let ?rd0 = "\<lparr>body = JUndefined, options = None, responseBodyParser = None, allowThrow = None\<rparr>"
  let ?rd1 = "\<lparr>body = JUndefined, options = None, responseBodyParser = Some taggingParser,
               allowThrow = None\<rparr>"
  let ?r1 = "MockResponseObject (JObject [(''prop'', JNumber 1)])
               (Headers [(''content-type'', [''application/json''])])"
  let ?r2 = "MockResponseObject (JObject [(''prop'', JNumber 1)])
               (Headers [(''content-type'', [''application/json; charset=utf-8''])])"
  let ?r3 = "MockResponseObject (JNumber 7) (Headers [(''content-type'', [''application/xml''])])"
  have hn: "Headers_new (mergedHeaders FetchService rd) = Inr (Headers [])"
    if "options rd = None" for rd
    using that
    by (simp add: mergedHeaders_def FetchService_def getNormalizedHeaders_def spread_def assign_def
          Object_entries_def Object_fromEntries_def Headers_new_def)
  have get: "Headers_get (Headers []) ''content-type'' = None"
    by (simp add: Headers_get_def)
  have pre: "Headers_new (mergedHeaders FetchService rd) = Inr (Headers []) \<and>
      (if isJsonRequest (Headers_get (Headers []) ''content-type'') (body rd)
       then JSON_stringify (body rd) else Inr (body rd)) = Inr JUndefined \<and>
      mockResolved r (getTreatedUri FetchService ''/somewhere'')
        (requestOptions FetchService ''POST'' rd (Headers [])
           (contentTypeToUse (Headers_get (Headers []) ''content-type'') (body rd)) JUndefined) =
        Inr r"
    if "options rd = None" "body rd = JUndefined" for rd r
    using that hn [of rd] by (simp add: get isJsonRequest_def mockResolved_def)
  have json1: "sublist ''application/json'' ''application/json''"
    and json2: "sublist ''application/json'' ''application/json; charset=utf-8''"
    and xml: "\<not> sublist ''application/json'' ''application/xml''"
    unfolding includes_str_sublist [symmetric] by (simp_all add: startsWith_def)
  have ct: "Headers_get (Headers [(''content-type'', [v])]) ''content-type'' = Some v" for v
    by (simp add: Headers_get_def toLowerCase_def toLowerCase_char_def isUpperCase_def join_def)
  have seven: "JSON_stringify (JNumber 7) = Inr (JString ''7'')"
    by (simp add: JSON_stringify_def Number_toString_def digits.simps digit_char_def)
  have a: "snd (makeRequest (mockResolved ?r1) FetchService ''POST'' ''/somewhere'' ?rd1) =
     Resolved \<lparr>response = Some ?r1,
               parsed_body = JArray [JString ''parsed'', JObject [(''prop'', JNumber 1)]]\<rparr>"
    using response_body_parsing [of FetchService ?rd1 "mockResolved ?r1" "''/somewhere''" "''POST''",
        THEN conjunct1, THEN spec, THEN spec, THEN spec, THEN mp, OF pre [of ?rd1 ?r1]]
    by (simp add: taggingParser_def MockResponseObject_sel)
  have b: "snd (makeRequest (mockResolved ?r2) FetchService ''POST'' ''/somewhere'' ?rd0) =
     Resolved \<lparr>response = Some ?r2, parsed_body = JObject [(''prop'', JNumber 1)]\<rparr>"
    using response_body_parsing [of FetchService ?rd0 "mockResolved ?r2" "''/somewhere''" "''POST''",
        THEN conjunct1, THEN spec, THEN spec, THEN spec, THEN mp, OF pre [of ?rd0 ?r2]] json2
    by (simp add: MockResponseObject_sel ct receiver_def)
  have c: "snd (makeRequest (mockResolved ?r3) FetchService ''POST'' ''/somewhere'' ?rd0) =
     Resolved \<lparr>response = Some ?r3, parsed_body = JString ''7''\<rparr>"
    using response_body_parsing [of FetchService ?rd0 "mockResolved ?r3" "''/somewhere''" "''POST''",
        THEN conjunct1, THEN spec, THEN spec, THEN spec, THEN mp, OF pre [of ?rd0 ?r3]] xml
    by (simp add: MockResponseObject_sel ct receiver_def seven)
  from a b c show ?thesis by simp
qed

end
